theory Spec2Isabelle
  imports Complex_Main "HOL-Library.Word" "HOL-Library.Char_ord"
begin

section \<open>Shared data: exceptions and the document tree\<close>

text \<open>
  Python exceptions are values. Each constructor is the class of the exception and
  carries its message, so that two errors raised on different attempts can be told apart.
\<close>

datatype exn =
    RequestException string
  | HTTPError int
  | ParserRejectedMarkup string
  | RuntimeError string
  | TypeError string
  | AttributeError string
  | ValueError string
  | OSError string
  | NoSuchProcess int
  | AccessDenied string

text \<open>
  The tree that \<^verbatim>\<open>BeautifulSoup(html, "html.parser")\<close> builds: a tag has a name, its
  attributes and its children; every other node is a string. A parsed document is the
  list of its top-level nodes (\<^verbatim>\<open>soup.contents\<close>).
\<close>

datatype node =
    Tag string "(string \<times> string) list" "node list"
  | NavigableString string

type_synonym soup = "node list"

text \<open>
  The functions of bs4 that the code calls and that are not part of the repository:
  the parser (it may reject markup by raising), the serialiser \<^verbatim>\<open>str(soup)\<close>, and the
  query functions used by the scraper.
\<close>

record bs4 =
  BeautifulSoup :: "string \<Rightarrow> exn + soup"
  str_soup :: "soup \<Rightarrow> string"
  select :: "soup \<Rightarrow> string \<Rightarrow> exn + node list"
  find_all_class :: "soup \<Rightarrow> string \<Rightarrow> node list"
  find_id :: "soup \<Rightarrow> string \<Rightarrow> node option"
  str_node :: "node \<Rightarrow> string"
  decompose_noise :: "soup \<Rightarrow> soup"
  stripped_strings :: "soup \<Rightarrow> string list"
  interactions :: "soup \<Rightarrow> (string \<times> string \<times> (string \<times> string) list) list"

section \<open>web.py: class scraper\<close>

record scraper =
  user_agent :: string
  delay :: "real \<times> real"
  timeout :: int
  max_retries :: int
  last_html :: "string option"
  last_url :: "string option"
  priv_soup :: "soup option"

text \<open>\<^verbatim>\<open>__init__\<close>: an empty or missing user agent is replaced by the default one.\<close>

definition init :: "string option \<Rightarrow> real \<times> real \<Rightarrow> int \<Rightarrow> int \<Rightarrow> scraper" where
  "init ua d t m =
     \<lparr> user_agent = (case ua of
          None \<Rightarrow> ''inferas-scraper/0.1 (+https://github.com/yourname/inferas)''
        | Some u \<Rightarrow> (if u = [] then ''inferas-scraper/0.1 (+https://github.com/yourname/inferas)'' else u)),
       delay = d, timeout = t, max_retries = m,
       last_html = None, last_url = None, priv_soup = None \<rparr>"

text \<open>
  What one \<^verbatim>\<open>requests.get\<close> gives back: the call raises, or it returns a response whose
  \<^verbatim>\<open>raise_for_status()\<close> may raise and whose \<^verbatim>\<open>text\<close> is the body.
\<close>

record response =
  raise_for_status :: "exn option"
  text_of :: string

text \<open>
  The network of one call of \<^verbatim>\<open>getweb\<close>: the outcome of the request made on each
  attempt (the loop makes exactly one request per iteration).
\<close>

type_synonym network = "int \<Rightarrow> exn + response"

text \<open>What a call does to the outside world, in order.\<close>

datatype event =
    Polite_sleep "real \<times> real"
  | Request int string "(string \<times> string) list" int
  | Print int string exn int
  | Sleep int

text \<open>
  The body of the \<^verbatim>\<open>try\<close> block at one attempt. The three fields are assigned one after
  the other, and the parser is called between the second and the third assignment.
\<close>

definition try_body :: "bs4 \<Rightarrow> network \<Rightarrow> string \<Rightarrow> int \<Rightarrow> scraper \<Rightarrow> (exn + string) \<times> scraper" where
  "try_body lib net link attempt s =
     (case net attempt of
        Inl e \<Rightarrow> (Inl e, s)
      | Inr r \<Rightarrow>
          (case raise_for_status r of
             Some e \<Rightarrow> (Inl e, s)
           | None \<Rightarrow>
               (let html = text_of r;
                    s1 = s\<lparr>last_html := Some html\<rparr>;
                    s2 = s1\<lparr>last_url := Some link\<rparr>
                in case BeautifulSoup lib html of
                     Inl e \<Rightarrow> (Inl e, s2)
                   | Inr sp \<Rightarrow> (Inr html, s2\<lparr>priv_soup := Some sp\<rparr>))))"

text \<open>
  The \<^verbatim>\<open>for attempt in range(self.max_retries)\<close> loop over the attempts that remain.
  The result is what the call returns or raises, the instance afterwards, and the events
  in order. When the range is exhausted the fallback \<^verbatim>\<open>raise last_exc\<close> runs; with
  \<^verbatim>\<open>last_exc\<close> still \<^verbatim>\<open>None\<close> Python raises a TypeError.
\<close>

fun getweb_loop ::
  "bs4 \<Rightarrow> network \<Rightarrow> string \<Rightarrow> (string \<times> string) list \<Rightarrow> int list \<Rightarrow> exn option \<Rightarrow> scraper
     \<Rightarrow> (exn + string) \<times> scraper \<times> event list" where
  "getweb_loop lib net link headers [] last_exc s =
     (case last_exc of
        None \<Rightarrow> (Inl (TypeError ''exceptions must derive from BaseException''), s, [])
      | Some e \<Rightarrow> (Inl e, s, []))"
| "getweb_loop lib net link headers (attempt # rest) last_exc s =
     (case try_body lib net link attempt s of
        (Inr html, s') \<Rightarrow> (Inr html, s', [Request attempt link headers (timeout s)])
      | (Inl e, s') \<Rightarrow>
          (if attempt = max_retries s' - 1
           then (Inl e, s', [Request attempt link headers (timeout s)])
           else (case getweb_loop lib net link headers rest (Some e) s' of
                   (res, s'', evs) \<Rightarrow>
                     (res, s'',
                      [Request attempt link headers (timeout s),
                       Print (attempt + 1) link e (2 ^ nat attempt),
                       Sleep (2 ^ nat attempt)] @ evs))))"

definition polite_sleep :: "scraper \<Rightarrow> event list" where
  "polite_sleep s = [Polite_sleep (delay s)]"

text \<open>\<^verbatim>\<open>headers or {"User-Agent": self.user_agent}\<close>: an empty dictionary is falsy.\<close>

definition request_headers :: "scraper \<Rightarrow> (string \<times> string) list option \<Rightarrow> (string \<times> string) list" where
  "request_headers s headers =
     (case headers of
        None \<Rightarrow> [(''User-Agent'', user_agent s)]
      | Some h \<Rightarrow> (if h = [] then [(''User-Agent'', user_agent s)] else h))"

definition getweb ::
  "bs4 \<Rightarrow> network \<Rightarrow> scraper \<Rightarrow> string \<Rightarrow> (string \<times> string) list option \<Rightarrow> bool
     \<Rightarrow> (exn + string) \<times> scraper \<times> event list" where
  "getweb lib net s link headers respect_delay =
     (let hs = request_headers s headers;
          evs0 = (if respect_delay then polite_sleep s else [])
      in case getweb_loop lib net link hs [0 .. max_retries s - 1] None s of
           (res, s', evs) \<Rightarrow> (res, s', evs0 @ evs))"

text \<open>
  Views of one attempt, used to state what a call did: the exception that the \<^verbatim>\<open>try\<close>
  block raises at an attempt (if any), whether the attempt got past
  \<^verbatim>\<open>raise_for_status\<close> (so that the two string fields were assigned), and whether an
  event is a network request.
\<close>

definition attempt_exn :: "bs4 \<Rightarrow> network \<Rightarrow> int \<Rightarrow> exn option" where
  "attempt_exn lib net attempt =
     (case net attempt of
        Inl e \<Rightarrow> Some e
      | Inr r \<Rightarrow>
          (case raise_for_status r of
             Some e \<Rightarrow> Some e
           | None \<Rightarrow> (case BeautifulSoup lib (text_of r) of Inl e \<Rightarrow> Some e | Inr sp \<Rightarrow> None)))"

definition passes_status :: "network \<Rightarrow> int \<Rightarrow> bool" where
  "passes_status net attempt =
     (case net attempt of Inl e \<Rightarrow> False | Inr r \<Rightarrow> raise_for_status r = None)"

fun is_request :: "event \<Rightarrow> bool" where
  "is_request (Request a l h t) = True"
| "is_request ev = False"

text \<open>
  The events of the loop from attempt \<open>i\<close> on when attempt \<open>k\<close> is the last one made:
  every attempt before \<open>k\<close> is followed by its log line and its sleep.
\<close>

definition events_upto ::
  "bs4 \<Rightarrow> network \<Rightarrow> scraper \<Rightarrow> string \<Rightarrow> (string \<times> string) list \<Rightarrow> int \<Rightarrow> int \<Rightarrow> event list" where
  "events_upto lib net s link hs i k =
     concat (map (\<lambda>j. [Request j link hs (timeout s),
                        Print (j + 1) link (the (attempt_exn lib net j)) (2 ^ nat j),
                        Sleep (2 ^ nat j)]) [i .. k - 1])
     @ [Request k link hs (timeout s)]"

text \<open>\<^verbatim>\<open>_ensure_soup\<close>: an empty \<^verbatim>\<open>last_html\<close> is falsy, like \<^verbatim>\<open>None\<close>.\<close>

definition ensure_soup :: "bs4 \<Rightarrow> scraper \<Rightarrow> exn + scraper" where
  "ensure_soup lib s =
     (case priv_soup s of
        Some sp \<Rightarrow> Inr s
      | None \<Rightarrow>
          (case last_html s of
             None \<Rightarrow> Inl (RuntimeError ''No HTML loaded. call getweb(url) first.'')
           | Some h \<Rightarrow>
               (if h = [] then Inl (RuntimeError ''No HTML loaded. call getweb(url) first.'')
                else (case BeautifulSoup lib h of
                        Inl e \<Rightarrow> Inl e
                      | Inr sp \<Rightarrow> Inr (s\<lparr>priv_soup := Some sp\<rparr>)))))"

text \<open>
  Every query starts with \<^verbatim>\<open>self._ensure_soup()\<close> and then reads \<^verbatim>\<open>self._soup\<close>; were
  it still \<^verbatim>\<open>None\<close>, calling a method on it would raise.
\<close>

definition loaded_soup :: "bs4 \<Rightarrow> scraper \<Rightarrow> exn + (scraper \<times> soup)" where
  "loaded_soup lib s =
     (case ensure_soup lib s of
        Inl e \<Rightarrow> Inl e
      | Inr s' \<Rightarrow>
          (case priv_soup s' of
             None \<Rightarrow> Inl (AttributeError ''NoneType object has no such attribute'')
           | Some sp \<Rightarrow> Inr (s', sp)))"

fun join :: "string \<Rightarrow> string list \<Rightarrow> string" where
  "join sep [] = []"
| "join sep [x] = x"
| "join sep (x # y # ys) = x @ sep @ join sep (y # ys)"

definition extractalltext :: "bs4 \<Rightarrow> scraper \<Rightarrow> bool \<Rightarrow> (exn + string) \<times> scraper" where
  "extractalltext lib s collapse_whitespace =
     (case loaded_soup lib s of
        Inl e \<Rightarrow> (Inl e, s)
      | Inr (s', sp) \<Rightarrow>
          (let sp' = decompose_noise lib sp;
               texts = stripped_strings lib sp'
           in (Inr (if collapse_whitespace then join '' '' texts else join [CHR 0x0A] texts),
               s'\<lparr>priv_soup := Some sp'\<rparr>)))"

definition extractallinteractions ::
  "bs4 \<Rightarrow> scraper \<Rightarrow> (exn + (string \<times> string \<times> (string \<times> string) list) list) \<times> scraper" where
  "extractallinteractions lib s =
     (case loaded_soup lib s of
        Inl e \<Rightarrow> (Inl e, s)
      | Inr (s', sp) \<Rightarrow> (Inr (interactions lib sp), s'))"

definition get_element :: "bs4 \<Rightarrow> scraper \<Rightarrow> string \<Rightarrow> (exn + string list) \<times> scraper" where
  "get_element lib s el =
     (case loaded_soup lib s of
        Inl e \<Rightarrow> (Inl e, s)
      | Inr (s', sp) \<Rightarrow>
          (case select lib sp el of
             Inl e \<Rightarrow> (Inl e, s')
           | Inr items \<Rightarrow> (Inr (map (str_node lib) items), s')))"

definition get_by_class :: "bs4 \<Rightarrow> scraper \<Rightarrow> string \<Rightarrow> (exn + string list) \<times> scraper" where
  "get_by_class lib s cls =
     (case loaded_soup lib s of
        Inl e \<Rightarrow> (Inl e, s)
      | Inr (s', sp) \<Rightarrow> (Inr (map (str_node lib) (find_all_class lib sp cls)), s'))"

definition get_by_id :: "bs4 \<Rightarrow> scraper \<Rightarrow> string \<Rightarrow> (exn + string option) \<times> scraper" where
  "get_by_id lib s ident =
     (case loaded_soup lib s of
        Inl e \<Rightarrow> (Inl e, s)
      | Inr (s', sp) \<Rightarrow> (Inr (map_option (str_node lib) (find_id lib sp ident)), s'))"

text \<open>
  The instances on which no fetch has succeeded: a new instance, and any instance
  obtained from one of them by a call of \<^verbatim>\<open>getweb\<close> that raised.
\<close>

inductive never_loaded :: "bs4 \<Rightarrow> scraper \<Rightarrow> bool" for lib :: bs4 where
  fresh: "never_loaded lib (init ua d t m)"
| failed: "never_loaded lib s \<Longrightarrow> getweb lib net s link headers rd = (Inl e, s', evs)
     \<Longrightarrow> never_loaded lib s'"

section \<open>web.py: class injection\<close>

text \<open>
  \<^verbatim>\<open>soup.body\<close>, \<^verbatim>\<open>soup.head\<close> and \<^verbatim>\<open>soup.html\<close> are \<^verbatim>\<open>soup.find(name)\<close>: the first tag of
  that name in document order, at any depth, or \<^verbatim>\<open>None\<close>.
\<close>

fun find_node :: "string \<Rightarrow> node \<Rightarrow> node option"
  and find_nodes :: "string \<Rightarrow> node list \<Rightarrow> node option" where
  "find_node n (NavigableString t) = None"
| "find_node n (Tag m as cs) = (if m = n then Some (Tag m as cs) else find_nodes n cs)"
| "find_nodes n [] = None"
| "find_nodes n (c # cs) =
     (case find_node n c of Some t \<Rightarrow> Some t | None \<Rightarrow> find_nodes n cs)"

text \<open>
  Mutating the tag that \<^verbatim>\<open>soup.find(name)\<close> returns: its children become \<open>f\<close> of its
  children, in place in the tree. \<open>None\<close> when there is no such tag.
\<close>

fun modify_node :: "string \<Rightarrow> (node list \<Rightarrow> node list) \<Rightarrow> node \<Rightarrow> node option"
  and modify_nodes :: "string \<Rightarrow> (node list \<Rightarrow> node list) \<Rightarrow> node list \<Rightarrow> node list option" where
  "modify_node n f (NavigableString t) = None"
| "modify_node n f (Tag m as cs) =
     (if m = n then Some (Tag m as (f cs))
      else (case modify_nodes n f cs of None \<Rightarrow> None | Some cs' \<Rightarrow> Some (Tag m as cs')))"
| "modify_nodes n f [] = None"
| "modify_nodes n f (c # cs) =
     (case modify_node n f c of
        Some c' \<Rightarrow> Some (c' # cs)
      | None \<Rightarrow> (case modify_nodes n f cs of None \<Rightarrow> None | Some cs' \<Rightarrow> Some (c # cs')))"

text \<open>
  A method call on \<^verbatim>\<open>soup.<name>\<close>: when the attribute is \<^verbatim>\<open>None\<close> the call raises
  AttributeError.
\<close>

definition on_tag :: "string \<Rightarrow> (node list \<Rightarrow> node list) \<Rightarrow> soup \<Rightarrow> exn + soup" where
  "on_tag n f sp =
     (case modify_nodes n f sp of
        None \<Rightarrow> Inl (AttributeError ''NoneType object has no such attribute'')
      | Some sp' \<Rightarrow> Inr sp')"

text \<open>
  \<^verbatim>\<open>if soup.body is None\<close>: a new body takes every top-level node and becomes the only
  top-level node.
\<close>

definition ensure_body :: "soup \<Rightarrow> soup" where
  "ensure_body sp = (case find_nodes ''body'' sp of None \<Rightarrow> [Tag ''body'' [] sp] | Some b \<Rightarrow> sp)"

text \<open>
  The placement. Appending or inserting a BeautifulSoup object puts its top-level nodes,
  in their order, at that place.
\<close>

definition place_snippet :: "soup \<Rightarrow> soup \<Rightarrow> string \<Rightarrow> exn + soup" where
  "place_snippet sp snippet_soup place =
     (if place = ''head'' \<or> place = ''start'' then
        (case (if find_nodes ''head'' sp = None
               then on_tag ''html'' (\<lambda>cs. Tag ''head'' [] [] # cs) sp
               else Inr sp) of
           Inl e \<Rightarrow> Inl e
         | Inr sp1 \<Rightarrow> on_tag ''head'' (\<lambda>cs. cs @ snippet_soup) sp1)
      else if place = ''body-start'' \<or> place = ''start-body'' then
        on_tag ''body'' (\<lambda>cs. snippet_soup @ cs) sp
      else on_tag ''body'' (\<lambda>cs. cs @ snippet_soup) sp)"

definition element :: "bs4 \<Rightarrow> string \<Rightarrow> string \<Rightarrow> string \<Rightarrow> exn + string" where
  "element lib html snippet place =
     (case BeautifulSoup lib html of
        Inl e \<Rightarrow> Inl e
      | Inr sp0 \<Rightarrow>
          (let sp = ensure_body sp0
           in case BeautifulSoup lib snippet of
                Inl e \<Rightarrow> Inl e
              | Inr snippet_soup \<Rightarrow>
                  (case place_snippet sp snippet_soup place of
                     Inl e \<Rightarrow> Inl e
                   | Inr sp' \<Rightarrow> Inr (str_soup lib sp'))))"

text \<open>
  \<^verbatim>\<open>injection.css\<close>: unlike \<^verbatim>\<open>element\<close>, it creates the html root when there is none
  before it inserts the head.
\<close>

definition ensure_head :: "soup \<Rightarrow> exn + soup" where
  "ensure_head sp =
     (if find_nodes ''head'' sp = None then
        (let sp1 = (if find_nodes ''html'' sp = None then [Tag ''html'' [] sp] else sp)
         in on_tag ''html'' (\<lambda>cs. Tag ''head'' [] [] # cs) sp1)
      else Inr sp)"

definition css :: "bs4 \<Rightarrow> string \<Rightarrow> string \<Rightarrow> exn + string" where
  "css lib html snippet =
     (case BeautifulSoup lib html of
        Inl e \<Rightarrow> Inl e
      | Inr sp \<Rightarrow>
          (case ensure_head sp of
             Inl e \<Rightarrow> Inl e
           | Inr sp1 \<Rightarrow>
               (case on_tag ''head'' (\<lambda>cs. cs @ [Tag ''style'' [] [NavigableString snippet]]) sp1 of
                  Inl e \<Rightarrow> Inl e
                | Inr sp2 \<Rightarrow> Inr (str_soup lib sp2))))"

section \<open>re.py: class re\<close>

type_synonym byte = "8 word"

text \<open>Python values that end up in the dictionaries the functions return.\<close>

datatype pyval =
    PyNone
  | PyInt int
  | PyFloat real
  | PyStr string
  | PyList "pyval list"
  | PyDict "(string \<times> pyval) list"

text \<open>\<^verbatim>\<open>str(n)\<close> of an integer, for the messages of the exceptions.\<close>

fun digits :: "nat \<Rightarrow> string" where
  "digits n =
     (if n < 10 then [char_of (48 + n)] else digits (n div 10) @ [char_of (48 + n mod 10)])"

declare digits.simps [simp del]

definition str_int :: "int \<Rightarrow> string" where
  "str_int i = (if i < 0 then CHR ''-'' # digits (nat (- i)) else digits (nat i))"

subsection \<open>Process metadata\<close>

text \<open>
  A \<^verbatim>\<open>psutil.Process\<close> handle: what each of its methods gives when \<^verbatim>\<open>get_pid\<close> calls it,
  a value or an exception. \<^verbatim>\<open>memory_info()\<close> is read with \<^verbatim>\<open>getattr(mem, ..., None)\<close>, so
  each of its two attributes may be missing.
\<close>

record pmem =
  rss :: "int option"
  vms :: "int option"

record popenfile =
  path :: string
  fd :: int

record process =
  name :: "exn + string"
  cmdline :: "exn + string list"
  exe :: "exn + string"
  cwd :: "exn + string"
  username :: "exn + string"
  create_time :: "exn + real"
  status :: "exn + string"
  cpu_times_asdict :: "exn + (string \<times> real) list"
  memory_info :: "exn + pmem"
  open_files :: "exn + popenfile list"
  connections :: "exn + string list"

text \<open>
  The module \<^verbatim>\<open>psutil\<close> is optional: \<open>None\<close> when the import failed, otherwise what
  \<^verbatim>\<open>psutil.Process(pid)\<close> gives.
\<close>

type_synonym psutil = "(int \<Rightarrow> exn + process) option"

definition safe_psutil_proc :: "psutil \<Rightarrow> int \<Rightarrow> exn + process option" where
  "safe_psutil_proc psutil pid =
     (case psutil of
        None \<Rightarrow> Inl (RuntimeError ''psutil not installed. pip install psutil to use get_pid.'')
      | Some Process \<Rightarrow>
          (case Process pid of
             Inr proc \<Rightarrow> Inr (Some proc)
           | Inl (NoSuchProcess p) \<Rightarrow> Inr None
           | Inl e \<Rightarrow> Inl e))"

text \<open>One \<^verbatim>\<open>try: out[k] = ... except Exception: out[k] = None\<close> block.\<close>

definition attempt_field :: "('a \<Rightarrow> pyval) \<Rightarrow> exn + 'a \<Rightarrow> pyval" where
  "attempt_field conv r = (case r of Inl e \<Rightarrow> PyNone | Inr v \<Rightarrow> conv v)"

definition py_opt_int :: "int option \<Rightarrow> pyval" where
  "py_opt_int v = (case v of None \<Rightarrow> PyNone | Some i \<Rightarrow> PyInt i)"

definition get_pid :: "psutil \<Rightarrow> int \<Rightarrow> exn + (string \<rightharpoonup> pyval)" where
  "get_pid psutil pid =
     (case safe_psutil_proc psutil pid of
        Inl e \<Rightarrow> Inl e
      | Inr None \<Rightarrow> Inl (ValueError (''No process with pid='' @ str_int pid))
      | Inr (Some proc) \<Rightarrow>
          (let out = [''pid'' \<mapsto> PyInt pid];
               out = out(''name'' \<mapsto> attempt_field PyStr (name proc));
               out = out(''cmdline'' \<mapsto> attempt_field (\<lambda>c. PyList (map PyStr c)) (cmdline proc));
               out = out(''exe'' \<mapsto> attempt_field PyStr (exe proc));
               out = out(''cwd'' \<mapsto> attempt_field PyStr (cwd proc));
               out = out(''username'' \<mapsto> attempt_field PyStr (username proc));
               out = out(''created'' \<mapsto> attempt_field PyFloat (create_time proc));
               out = out(''status'' \<mapsto> attempt_field PyStr (status proc));
               out = out(''cpu_times'' \<mapsto>
                       attempt_field (\<lambda>d. PyDict (map (\<lambda>(k, v). (k, PyFloat v)) d))
                         (cpu_times_asdict proc));
               out = out(''memory_info'' \<mapsto>
                       attempt_field
                         (\<lambda>mem. PyDict [(''rss'', py_opt_int (rss mem)), (''vms'', py_opt_int (vms mem))])
                         (memory_info proc));
               out = out(''open_files'' \<mapsto>
                       attempt_field (\<lambda>fs. PyList (map (\<lambda>f. PyStr (path f)) fs)) (open_files proc));
               out = out(''connections_count'' \<mapsto>
                       attempt_field (\<lambda>conns. PyInt (int (length conns))) (connections proc))
           in Inr out))"

subsection \<open>Files\<close>

text \<open>
  The file system as the three functions see it: \<^verbatim>\<open>open(path, "rb")\<close> raises or gives the
  bytes of the file, \<^verbatim>\<open>os.stat(path)\<close> raises or gives the stat result, and
  \<^verbatim>\<open>os.path.abspath\<close> is a function on strings.
\<close>

record stat_result =
  st_size :: int
  st_mtime :: real
  st_ctime :: real
  st_mode :: int

record filesystem =
  open_rb :: "string \<Rightarrow> exn + byte list"
  os_stat :: "string \<Rightarrow> exn + stat_result"
  abspath :: "string \<Rightarrow> string"

text \<open>
  \<^verbatim>\<open>fh.read(n)\<close> on the bytes not yet read: at most \<open>n\<close> of them, all of them when \<open>n\<close>
  is negative.
\<close>

definition fh_read :: "int \<Rightarrow> byte list \<Rightarrow> byte list" where
  "fh_read n unread = (if n < 0 then unread else take (nat n) unread)"

text \<open>
  \<^verbatim>\<open>hashlib.sha256()\<close>: the object holds the message fed so far (\<^verbatim>\<open>update(a)\<close> then
  \<^verbatim>\<open>update(b)\<close> is \<^verbatim>\<open>update(a + b)\<close>), and \<^verbatim>\<open>hexdigest()\<close> renders the 256-bit digest of
  that message as hexadecimal digits, most significant first. The digest function itself
  is a parameter.
\<close>

type_synonym hasher = "byte list"

definition sha256_new :: hasher where
  "sha256_new = []"

definition update :: "hasher \<Rightarrow> byte list \<Rightarrow> hasher" where
  "update h b = h @ b"

definition hex_digit :: "nat \<Rightarrow> char" where
  "hex_digit n = ''0123456789abcdef'' ! (n mod 16)"

definition hex256 :: "256 word \<Rightarrow> string" where
  "hex256 d = map (\<lambda>i. hex_digit (unat (drop_bit (4 * (63 - i)) d))) [0 ..< 64]"

definition hexdigest :: "(byte list \<Rightarrow> 256 word) \<Rightarrow> hasher \<Rightarrow> string" where
  "hexdigest sha256 h = hex256 (sha256 h)"

text \<open>The \<^verbatim>\<open>while True\<close> loop of \<^verbatim>\<open>_compute_sha256\<close>, on the unread bytes and the hasher.\<close>

function read_loop :: "int \<Rightarrow> byte list \<Rightarrow> hasher \<Rightarrow> hasher" where
  "read_loop chunk_size unread h =
     (if fh_read chunk_size unread = [] then h
      else read_loop chunk_size (drop (length (fh_read chunk_size unread)) unread)
             (update h (fh_read chunk_size unread)))"
  by pat_completeness auto
termination
  by (relation "measure (\<lambda>(c, unread, h). length unread)") (auto simp: fh_read_def split: if_splits)

declare read_loop.simps [simp del]

definition compute_sha256 ::
  "(byte list \<Rightarrow> 256 word) \<Rightarrow> filesystem \<Rightarrow> string \<Rightarrow> int \<Rightarrow> exn + string" where
  "compute_sha256 sha256 fs p chunk_size =
     (case open_rb fs p of
        Inl e \<Rightarrow> Inl e
      | Inr data \<Rightarrow> Inr (hexdigest sha256 (read_loop chunk_size data sha256_new)))"

definition file_metadata :: "filesystem \<Rightarrow> string \<Rightarrow> exn + (string \<rightharpoonup> pyval)" where
  "file_metadata fs p =
     (case os_stat fs p of
        Inl e \<Rightarrow> Inl e
      | Inr st \<Rightarrow>
          Inr [''path'' \<mapsto> PyStr (abspath fs p),
               ''size'' \<mapsto> PyInt (st_size st),
               ''mtime'' \<mapsto> PyFloat (st_mtime st),
               ''ctime'' \<mapsto> PyFloat (st_ctime st),
               ''mode'' \<mapsto> PyInt (st_mode st)])"

subsection \<open>String extraction\<close>

definition chr :: "byte \<Rightarrow> char" where
  "chr b = char_of (unat b)"

text \<open>
  The \<^verbatim>\<open>for b in data\<close> loop of \<^verbatim>\<open>_extract_strings\<close>, on the bytes that remain, with the
  two lists \<^verbatim>\<open>printable\<close> and \<^verbatim>\<open>results\<close>. The \<^verbatim>\<open>break\<close> leaves the loop before
  \<^verbatim>\<open>printable\<close> is reset.
\<close>

fun scan :: "int \<Rightarrow> int \<Rightarrow> byte list \<Rightarrow> string \<Rightarrow> string list \<Rightarrow> string \<times> string list" where
  "scan min_len max_results [] printable results = (printable, results)"
| "scan min_len max_results (b # data) printable results =
     (let c = chr b
      in if CHR '' '' \<le> c \<and> c \<le> CHR ''~'' then
           scan min_len max_results data (printable @ [c]) results
         else if min_len \<le> int (length printable) then
           (let results' = results @ [printable]
            in if max_results \<le> int (length results') then (printable, results')
               else scan min_len max_results data [] results')
         else scan min_len max_results data [] results)"

definition extract_strings :: "filesystem \<Rightarrow> string \<Rightarrow> int \<Rightarrow> int \<Rightarrow> string list" where
  "extract_strings fs p min_len max_results =
     (case open_rb fs p of
        Inl e \<Rightarrow> []
      | Inr data \<Rightarrow>
          (case scan min_len max_results data [] [] of
             (printable, results) \<Rightarrow>
               (if int (length results) < max_results \<and> min_len \<le> int (length printable)
                then results @ [printable] else results)))"

text \<open>
  The reference scan, from the words of the specification: the buffer is cut at every byte
  outside the printable range 0x20 to 0x7E, which gives its maximal printable runs from
  left to right (the last one is the run the buffer ends with); the runs of length at least
  \<open>min_len\<close> qualify, and the first \<open>max_results\<close> of them are the result.
\<close>

definition printable_byte :: "byte \<Rightarrow> bool" where
  "printable_byte b \<longleftrightarrow> 0x20 \<le> b \<and> b \<le> 0x7E"

function runs :: "byte list \<Rightarrow> byte list list" where
  "runs data =
     (case dropWhile printable_byte data of
        [] \<Rightarrow> [takeWhile printable_byte data]
      | b # rest \<Rightarrow> takeWhile printable_byte data # runs rest)"
  by pat_completeness auto
termination
proof (relation "measure length")
  show "wf (measure length)" by simp
next
  fix data :: "byte list" and b rest
  assume "dropWhile printable_byte data = b # rest"
  then have "length (b # rest) \<le> length data"
    using length_dropWhile_le [of printable_byte data] by simp
  then show "(rest, data) \<in> measure length" by simp
qed

declare runs.simps [simp del]

definition qualifying_runs :: "int \<Rightarrow> byte list \<Rightarrow> string list" where
  "qualifying_runs min_len data =
     map (map chr) (filter (\<lambda>r. min_len \<le> int (length r)) (runs data))"

definition reference_scan :: "byte list \<Rightarrow> int \<Rightarrow> int \<Rightarrow> string list" where
  "reference_scan data min_len max_results = take (nat max_results) (qualifying_runs min_len data)"

section \<open>Example inputs\<close>

text \<open>
  A parser for the examples. On the four documents it knows it answers as html.parser
  does: it rejects an unknown marked section by raising, and builds the tree of the
  others without adding any element. Any other input is taken as text without markup.
\<close>

definition example_parser :: "string \<Rightarrow> exn + soup" where
  "example_parser h =
     (if h = ''<![x[y]]>'' then Inl (ParserRejectedMarkup ''unknown status keyword'')
      else if h = ''<p>x</p>'' then Inr [Tag ''p'' [] [NavigableString ''x'']]
      else if h = ''<b>s</b>'' then Inr [Tag ''b'' [] [NavigableString ''s'']]
      else if h = ''<html><body><p>x</p></body></html>''
        then Inr [Tag ''html'' [] [Tag ''body'' [] [Tag ''p'' [] [NavigableString ''x'']]]]
      else Inr [NavigableString h])"

definition example_bs4 :: bs4 where
  "example_bs4 =
     \<lparr> BeautifulSoup = example_parser,
       str_soup = (\<lambda>sp. []),
       select = (\<lambda>sp el. Inr []),
       find_all_class = (\<lambda>sp c. []),
       find_id = (\<lambda>sp i. None),
       str_node = (\<lambda>n. []),
       decompose_noise = (\<lambda>sp. sp),
       stripped_strings = (\<lambda>sp. []),
       interactions = (\<lambda>sp. []) \<rparr>"

text \<open>
  Three networks: one whose attempt \<open>i\<close> answers with status \<open>500 + i\<close>, one that
  refuses the first two connections and then serves a page, and one that serves a page
  the parser rejects.
\<close>

definition net_failing :: network where
  "net_failing = (\<lambda>i. Inr \<lparr> raise_for_status = Some (HTTPError (500 + i)), text_of = [] \<rparr>)"

definition net_recovering :: network where
  "net_recovering =
     (\<lambda>i. if i < 2 then Inl (RequestException ''connection refused'')
          else Inr \<lparr> raise_for_status = None, text_of = ''<p>x</p>'' \<rparr>)"

definition net_rejected :: network where
  "net_rejected = (\<lambda>i. Inr \<lparr> raise_for_status = None, text_of = ''<![x[y]]>'' \<rparr>)"

definition example_scraper :: scraper where
  "example_scraper = init None (0, 0) 10 3"

text \<open>
  A file system with two readable files: one whose bytes are \<^verbatim>\<open>b"AB\x00CDEF\x01"\<close> and
  an empty one.
\<close>

definition example_fs :: filesystem where
  "example_fs =
     \<lparr> open_rb = (\<lambda>p. if p = ''/tmp/sample.bin''
                       then Inr [0x41, 0x42, 0x00, 0x43, 0x44, 0x45, 0x46, 0x01]
                     else if p = ''/tmp/empty.bin'' then Inr []
                     else Inl (OSError ''No such file or directory'')),
       os_stat = (\<lambda>p. if p = ''/tmp/sample.bin''
                       then Inr \<lparr> st_size = 8, st_mtime = 0, st_ctime = 0, st_mode = 33188 \<rparr>
                     else if p = ''/tmp/empty.bin''
                       then Inr \<lparr> st_size = 0, st_mtime = 0, st_ctime = 0, st_mode = 33188 \<rparr>
                     else Inl (OSError ''No such file or directory'')),
       abspath = (\<lambda>p. p) \<rparr>"

text \<open>
  A process whose open files may not be read, and a \<^verbatim>\<open>psutil\<close> that knows only this
  process, under pid 42.
\<close>

definition example_process :: process where
  "example_process =
     \<lparr> name = Inr ''python3'',
       cmdline = Inr [''python3'', ''-m'', ''inferas''],
       exe = Inr ''/usr/bin/python3'',
       cwd = Inr ''/home/user'',
       username = Inr ''user'',
       create_time = Inr 1700000000,
       status = Inr ''running'',
       cpu_times_asdict = Inr [(''user'', 1), (''system'', 2)],
       memory_info = Inr \<lparr> rss = Some 4096, vms = Some 8192 \<rparr>,
       open_files = Inl (AccessDenied ''pid=42''),
       connections = Inr [] \<rparr>"

definition example_psutil :: psutil where
  "example_psutil = Some (\<lambda>pid. if pid = 42 then Inr example_process else Inl (NoSuchProcess pid))"

section \<open>Properties\<close>

lemma try_body_fst:
  "fst (try_body lib net link a s) =
     (case attempt_exn lib net a of Some e \<Rightarrow> Inl e | None \<Rightarrow> (case net a of Inr r \<Rightarrow> Inr (text_of r) | Inl e \<Rightarrow> Inl e))"
  by (simp add: try_body_def attempt_exn_def Let_def split: sum.splits option.splits)

lemma try_body_config:
  "max_retries (snd (try_body lib net link a s)) = max_retries s"
  "timeout (snd (try_body lib net link a s)) = timeout s"
  by (simp_all add: try_body_def Let_def split: sum.splits option.splits)

lemma try_body_Inl:
  "attempt_exn lib net a = Some e \<Longrightarrow> \<exists>s'. try_body lib net link a s = (Inl e, s') \<and> max_retries s' = max_retries s \<and> timeout s' = timeout s"
  by (auto simp add: try_body_def attempt_exn_def Let_def split: sum.splits option.splits)

lemma try_body_Inr:
  "attempt_exn lib net a = None \<Longrightarrow> \<exists>s' r. try_body lib net link a s = (Inr (text_of r), s') \<and> net a = Inr r"
  by (auto simp add: try_body_def attempt_exn_def Let_def split: sum.splits option.splits)

lemma loop_all_fail:
  "i \<le> max_retries s - 1 \<Longrightarrow> \<forall>j. i \<le> j \<and> j < max_retries s \<longrightarrow> attempt_exn lib net j \<noteq> None \<Longrightarrow>
   \<exists>s'. getweb_loop lib net link hs [i .. max_retries s - 1] last_exc s =
     (Inl (the (attempt_exn lib net (max_retries s - 1))), s', events_upto lib net s link hs i (max_retries s - 1))
     \<and> max_retries s' = max_retries s"
proof (induction "nat (max_retries s - 1 - i)" arbitrary: i s last_exc)
  case 0
  then have i: "i = max_retries s - 1" by simp
  from 0 obtain e where e: "attempt_exn lib net i = Some e" using i by auto
  from try_body_Inl [OF e, of link s] obtain s' where
    s': "try_body lib net link i s = (Inl e, s')" "max_retries s' = max_retries s" by blast
  have "[i .. max_retries s - 1] = [i]" using i by simp
  then show ?case using s' e i by (simp add: events_upto_def)
next
  case (Suc n)
  then have lt: "i < max_retries s - 1" by simp
  from Suc.prems lt obtain e where e: "attempt_exn lib net i = Some e" by auto
  from try_body_Inl [OF e, of link s] obtain s1 where
    s1: "try_body lib net link i s = (Inl e, s1)" "max_retries s1 = max_retries s" "timeout s1 = timeout s" by blast
  have up: "[i .. max_retries s - 1] = i # [i + 1 .. max_retries s - 1]"
    using lt by (simp add: upto_rec1)
  have n: "n = nat (max_retries s1 - 1 - (i + 1))" using Suc.hyps(2) s1 by simp
  have le: "i + 1 \<le> max_retries s1 - 1" using lt s1 by simp
  have all: "\<forall>j. i + 1 \<le> j \<and> j < max_retries s1 \<longrightarrow> attempt_exn lib net j \<noteq> None"
    using Suc.prems(2) s1 by simp
  from Suc.hyps(1) [OF n le all, of "Some e"] obtain s' where
    s': "getweb_loop lib net link hs [i + 1 .. max_retries s1 - 1] (Some e) s1 =
          (Inl (the (attempt_exn lib net (max_retries s1 - 1))), s', events_upto lib net s1 link hs (i + 1) (max_retries s1 - 1))"
      "max_retries s' = max_retries s1" by blast
  have ev: "events_upto lib net s link hs i (max_retries s - 1) =
     [Request i link hs (timeout s), Print (i + 1) link e (2 ^ nat i), Sleep (2 ^ nat i)]
       @ events_upto lib net s1 link hs (i + 1) (max_retries s1 - 1)"
    using lt s1 e by (simp add: events_upto_def upto_rec1 [of i])
  show ?case using up s1 s' lt ev by simp
qed

lemma loop_succeeds:
  "i \<le> k \<Longrightarrow> k < max_retries s \<Longrightarrow> \<forall>j. i \<le> j \<and> j < k \<longrightarrow> attempt_exn lib net j \<noteq> None \<Longrightarrow>
   attempt_exn lib net k = None \<Longrightarrow>
   \<exists>s' r. getweb_loop lib net link hs [i .. max_retries s - 1] last_exc s =
     (Inr (text_of r), s', events_upto lib net s link hs i k) \<and> net k = Inr r"
proof (induction "nat (k - i)" arbitrary: i s last_exc)
  case 0
  then have i: "i = k" by simp
  from try_body_Inr [OF 0(5), of link s] obtain s' r where
    s': "try_body lib net link k s = (Inr (text_of r), s')" "net k = Inr r" by blast
  have "[i .. max_retries s - 1] = k # [k + 1 .. max_retries s - 1]"
    using i 0(3) by (simp add: upto_rec1)
  then show ?case using s' i by (simp add: events_upto_def)
next
  case (Suc n)
  then have lt: "i < k" by simp
  from Suc.prems lt obtain e where e: "attempt_exn lib net i = Some e" by auto
  from try_body_Inl [OF e, of link s] obtain s1 where
    s1: "try_body lib net link i s = (Inl e, s1)" "max_retries s1 = max_retries s" "timeout s1 = timeout s" by blast
  have up: "[i .. max_retries s - 1] = i # [i + 1 .. max_retries s - 1]"
    using lt Suc.prems(2) by (simp add: upto_rec1)
  have n: "n = nat (k - (i + 1))" using Suc.hyps(2) by simp
  have le: "i + 1 \<le> k" using lt by simp
  have k: "k < max_retries s1" using Suc.prems(2) s1 by simp
  have all: "\<forall>j. i + 1 \<le> j \<and> j < k \<longrightarrow> attempt_exn lib net j \<noteq> None"
    using Suc.prems(3) by simp
  from Suc.hyps(1) [OF n le k all Suc.prems(4), of "Some e"] obtain s' r where
    s': "getweb_loop lib net link hs [i + 1 .. max_retries s1 - 1] (Some e) s1 =
          (Inr (text_of r), s', events_upto lib net s1 link hs (i + 1) k)" "net k = Inr r" by blast
  have ev: "events_upto lib net s link hs i k =
     [Request i link hs (timeout s), Print (i + 1) link e (2 ^ nat i), Sleep (2 ^ nat i)]
       @ events_upto lib net s1 link hs (i + 1) k"
    using lt s1 e by (simp add: events_upto_def upto_rec1 [of i])
  have ne: "i \<noteq> max_retries s1 - 1" using lt Suc.prems(2) s1 by simp
  show ?case using up s1 s' ne ev by simp
qed

lemma requests_retried:
  "length (filter is_request (concat (map (\<lambda>j. [Request j link hs t, Print (j + 1) link (f j) (g j), Sleep (g j)]) xs)))
     = length xs"
  by (induction xs) simp_all

lemma requests_events_upto:
  "i \<le> k \<Longrightarrow> length (filter is_request (events_upto lib net s link hs i k)) = nat (k - i + 1)"
  by (simp add: events_upto_def requests_retried)

lemma last_events_upto:
  "last (events_upto lib net s link hs i k) = Request k link hs (timeout s)"
  by (simp add: events_upto_def)

lemma loop_requests_le:
  "length (filter is_request (snd (snd (getweb_loop lib net link hs xs last_exc s)))) \<le> length xs"
proof (induction xs arbitrary: last_exc s)
  case Nil
  show ?case by (simp split: option.splits)
next
  case (Cons a xs)
  show ?case
  proof (cases "try_body lib net link a s")
    case (Pair res s1)
    show ?thesis
    proof (cases res)
      case (Inr html)
      then show ?thesis using Pair by simp
    next
      case (Inl e)
      have "length (filter is_request (snd (snd (getweb_loop lib net link hs xs (Some e) s1)))) \<le> length xs"
        by (rule Cons.IH)
      then show ?thesis using Pair Inl by (auto split: prod.splits)
    qed
  qed
qed

lemma getweb_requests_le:
  "length (filter is_request (snd (snd (getweb lib net s link headers rd)))) \<le> nat (max_retries s)"
proof -
  have "length (filter is_request (snd (snd (getweb_loop lib net link (request_headers s headers) [0 .. max_retries s - 1] None s))))
          \<le> length [0 .. max_retries s - 1]"
    by (rule loop_requests_le)
  then show ?thesis
    by (auto simp add: getweb_def Let_def polite_sleep_def split: prod.splits)
qed

lemma try_body_soup:
  "try_body lib net link a s = (Inl e, s') \<Longrightarrow> priv_soup s' = priv_soup s"
  by (auto simp add: try_body_def Let_def split: sum.splits option.splits)

lemma try_body_fixed:
  "try_body lib net link a s = (res, s') \<Longrightarrow>
     user_agent s' = user_agent s \<and> delay s' = delay s \<and> timeout s' = timeout s \<and> max_retries s' = max_retries s"
  by (auto simp add: try_body_def Let_def split: sum.splits option.splits)

lemma try_body_strings:
  "\<not> passes_status net a \<Longrightarrow> try_body lib net link a s = (res, s') \<Longrightarrow> s' = s"
  by (auto simp add: try_body_def passes_status_def Let_def split: sum.splits option.splits)

lemma loop_soup:
  "getweb_loop lib net link hs xs last_exc s = (Inl e, s', evs) \<Longrightarrow> priv_soup s' = priv_soup s"
proof (induction xs arbitrary: last_exc s evs)
  case Nil
  then show ?case by (auto split: option.splits)
next
  case (Cons a xs)
  obtain res s1 where t: "try_body lib net link a s = (res, s1)" by (cases "try_body lib net link a s")
  show ?case
  proof (cases res)
    case (Inr html)
    then show ?thesis using Cons.prems t by simp
  next
    case (Inl e1)
    have s1: "priv_soup s1 = priv_soup s" using t Inl try_body_soup by blast
    show ?thesis
    proof (cases "a = max_retries s1 - 1")
      case True
      then show ?thesis using Cons.prems t Inl s1 by simp
    next
      case False
      obtain r2 s2 ev2 where l: "getweb_loop lib net link hs xs (Some e1) s1 = (r2, s2, ev2)"
        by (cases "getweb_loop lib net link hs xs (Some e1) s1")
      with Cons.prems t Inl False have "r2 = Inl e" "s2 = s'" by simp_all
      with l Cons.IH have "priv_soup s' = priv_soup s1" by blast
      then show ?thesis using s1 by simp
    qed
  qed
qed

lemma loop_strings:
  "\<forall>a \<in> set xs. \<not> passes_status net a \<Longrightarrow> getweb_loop lib net link hs xs last_exc s = (res, s', evs) \<Longrightarrow> s' = s"
proof (induction xs arbitrary: last_exc s evs res s')
  case Nil
  then show ?case by (auto split: option.splits)
next
  case (Cons a xs)
  obtain r1 s1 where t: "try_body lib net link a s = (r1, s1)" by (cases "try_body lib net link a s")
  have s1: "s1 = s" using t Cons.prems(1) try_body_strings by (metis list.set_intros(1))
  show ?case
  proof (cases r1)
    case (Inr html)
    then show ?thesis using Cons.prems t s1 by simp
  next
    case (Inl e1)
    show ?thesis
    proof (cases "a = max_retries s1 - 1")
      case True
      then show ?thesis using Cons.prems t Inl s1 by simp
    next
      case False
      obtain r2 s2 ev2 where l: "getweb_loop lib net link hs xs (Some e1) s1 = (r2, s2, ev2)"
        by (cases "getweb_loop lib net link hs xs (Some e1) s1")
      with Cons.prems t Inl False have "s2 = s'" by simp
      moreover have "s2 = s1" using Cons.IH [OF _ l] Cons.prems(1) by simp
      ultimately show ?thesis using s1 by simp
    qed
  qed
qed

lemma events_upto_split:
  "i \<le> j \<Longrightarrow> j < k \<Longrightarrow>
   events_upto lib net s link hs i k =
     concat (map (\<lambda>j. [Request j link hs (timeout s),
                        Print (j + 1) link (the (attempt_exn lib net j)) (2 ^ nat j),
                        Sleep (2 ^ nat j)]) [i .. j])
     @ events_upto lib net s link hs (j + 1) k"
proof -
  assume "i \<le> j" "j < k"
  then have "[i .. k - 1] = [i .. j] @ [j + 1 .. k - 1]"
    using upto_split2 [of i j "k - 1"] by simp
  then show ?thesis by (simp add: events_upto_def)
qed

lemma events_upto_first:
  "i \<le> k \<Longrightarrow> \<exists>post. events_upto lib net s link hs i k = Request i link hs (timeout s) # post"
proof (cases "i = k")
  case True
  then show ?thesis by (simp add: events_upto_def)
next
  case False
  assume "i \<le> k"
  with False have "[i .. k - 1] = i # [i + 1 .. k - 1]" by (simp add: upto_rec1)
  then show ?thesis by (simp add: events_upto_def)
qed

lemma sleep_before_next:
  assumes "i \<le> j" "j < k"
  shows "\<exists>pre post. events_upto lib net s link hs i k =
           pre @ [Sleep (2 ^ nat j), Request (j + 1) link hs (timeout s)] @ post"
proof -
  let ?blk = "\<lambda>j. [Request j link hs (timeout s),
                    Print (j + 1) link (the (attempt_exn lib net j)) (2 ^ nat j),
                    Sleep (2 ^ nat j)]"
  have "[i .. j] = [i .. j - 1] @ [j]" using assms(1) by (simp add: upto_rec2)
  then have a: "concat (map ?blk [i .. j]) =
      (concat (map ?blk [i .. j - 1]) @ [Request j link hs (timeout s),
         Print (j + 1) link (the (attempt_exn lib net j)) (2 ^ nat j)]) @ [Sleep (2 ^ nat j)]"
    by simp
  have "j + 1 \<le> k" using assms(2) by simp
  from events_upto_first [OF this, of lib net s link hs]
  obtain post where b: "events_upto lib net s link hs (j + 1) k = Request (j + 1) link hs (timeout s) # post"
    by blast
  have "events_upto lib net s link hs i k = concat (map ?blk [i .. j]) @ events_upto lib net s link hs (j + 1) k"
    using events_upto_split [OF assms] .
  then have "events_upto lib net s link hs i k =
      (concat (map ?blk [i .. j - 1]) @ [Request j link hs (timeout s),
         Print (j + 1) link (the (attempt_exn lib net j)) (2 ^ nat j)])
      @ [Sleep (2 ^ nat j), Request (j + 1) link hs (timeout s)] @ post"
    using a b by simp
  then show ?thesis by blast
qed

text \<open>
  Claim C1 (retry exhaustion). When \<open>max_retries\<close> is at least 1 and every attempt
  \<open>0, ..., max_retries - 1\<close> raises, \<^verbatim>\<open>getweb\<close> raises exactly the exception of the last
  attempt, its events are the optional polite sleep followed by the attempts with their
  log lines and sleeps, exactly \<open>max_retries\<close> requests are made, and the last event of
  the call is the request of the final attempt: nothing is attempted (or slept) after it.
\<close>

theorem getweb_retry_exhaustion:
  assumes "1 \<le> max_retries s"
    and "\<forall>i. 0 \<le> i \<and> i < max_retries s \<longrightarrow> attempt_exn lib net i \<noteq> None"
  shows "fst (getweb lib net s link headers rd) = Inl (the (attempt_exn lib net (max_retries s - 1)))
       \<and> snd (snd (getweb lib net s link headers rd)) =
           (if rd then polite_sleep s else [])
             @ events_upto lib net s link (request_headers s headers) 0 (max_retries s - 1)
       \<and> length (filter is_request (snd (snd (getweb lib net s link headers rd)))) = nat (max_retries s)
       \<and> last (snd (snd (getweb lib net s link headers rd))) =
           Request (max_retries s - 1) link (request_headers s headers) (timeout s)"
proof -
  let ?hs = "request_headers s headers"
  have le: "0 \<le> max_retries s - 1" using assms(1) by simp
  from loop_all_fail [OF le assms(2), of link ?hs None] obtain s' where
    l: "getweb_loop lib net link ?hs [0 .. max_retries s - 1] None s =
          (Inl (the (attempt_exn lib net (max_retries s - 1))), s',
           events_upto lib net s link ?hs 0 (max_retries s - 1))" by blast
  have g: "getweb lib net s link headers rd =
      (Inl (the (attempt_exn lib net (max_retries s - 1))), s',
       (if rd then polite_sleep s else []) @ events_upto lib net s link ?hs 0 (max_retries s - 1))"
    using l by (simp add: getweb_def Let_def)
  have ne: "events_upto lib net s link ?hs 0 (max_retries s - 1) \<noteq> []"
    by (simp add: events_upto_def)
  have c: "length (filter is_request (events_upto lib net s link ?hs 0 (max_retries s - 1))) = nat (max_retries s)"
    using requests_events_upto [OF le, of lib net s link ?hs] by simp
  show ?thesis
    using g ne c by (simp add: last_events_upto polite_sleep_def)
qed

text \<open>
  An instance: the scraper with three retries on the network whose attempt \<open>i\<close>
  answers with status \<open>500 + i\<close>. The call raises the error of attempt 2 after three
  requests.
\<close>

theorem getweb_retry_exhaustion_witness:
  "1 \<le> max_retries example_scraper
   \<and> fst (getweb example_bs4 net_failing example_scraper ''http://example.com'' None True) = Inl (HTTPError 502)
   \<and> length (filter is_request (snd (snd (getweb example_bs4 net_failing example_scraper ''http://example.com'' None True)))) = 3
   \<and> last (snd (snd (getweb example_bs4 net_failing example_scraper ''http://example.com'' None True))) =
       Request 2 ''http://example.com'' [(''User-Agent'', ''inferas-scraper/0.1 (+https://github.com/yourname/inferas)'')] 10"
proof -
  have h1: "1 \<le> max_retries example_scraper"
    by (simp add: example_scraper_def init_def)
  have h2: "\<forall>i. 0 \<le> i \<and> i < max_retries example_scraper \<longrightarrow> attempt_exn example_bs4 net_failing i \<noteq> None"
    by (simp add: attempt_exn_def net_failing_def)
  show ?thesis
    using h1 getweb_retry_exhaustion [OF h1 h2, of "''http://example.com''" None True]
    by (simp add: attempt_exn_def net_failing_def example_scraper_def init_def request_headers_def
        events_upto_def polite_sleep_def upto.simps)
qed

text \<open>
  Claim C2 (backoff). When attempts \<open>0, ..., k - 1\<close> raise and attempt \<open>k\<close> succeeds, with
  \<open>k < max_retries\<close>, \<^verbatim>\<open>getweb\<close> returns the text of the response of attempt \<open>k\<close>; for
  every \<open>i < k\<close> the request of attempt \<open>i + 1\<close> is immediately preceded by a sleep of
  \<open>2 ^ i\<close>; exactly \<open>k + 1\<close> requests are made; the last event is the request of attempt
  \<open>k\<close>, so nothing is attempted after the success; and on any network whatever the call
  makes at most \<open>max_retries\<close> requests.
\<close>

theorem getweb_backoff:
  assumes "0 \<le> k" and "k < max_retries s"
    and "\<forall>i. 0 \<le> i \<and> i < k \<longrightarrow> attempt_exn lib net i \<noteq> None"
    and "attempt_exn lib net k = None"
  shows "(\<exists>r. net k = Inr r \<and> fst (getweb lib net s link headers rd) = Inr (text_of r))
       \<and> snd (snd (getweb lib net s link headers rd)) =
           (if rd then polite_sleep s else [])
             @ events_upto lib net s link (request_headers s headers) 0 k
       \<and> (\<forall>i. 0 \<le> i \<and> i < k \<longrightarrow>
            (\<exists>pre post. snd (snd (getweb lib net s link headers rd)) =
               pre @ [Sleep (2 ^ nat i), Request (i + 1) link (request_headers s headers) (timeout s)] @ post))
       \<and> length (filter is_request (snd (snd (getweb lib net s link headers rd)))) = nat (k + 1)
       \<and> last (snd (snd (getweb lib net s link headers rd))) =
           Request k link (request_headers s headers) (timeout s)
       \<and> (\<forall>net'. length (filter is_request (snd (snd (getweb lib net' s link headers rd))))
             \<le> nat (max_retries s))"
proof -
  let ?hs = "request_headers s headers"
  let ?pre = "if rd then polite_sleep s else []"
  from loop_succeeds [OF assms, of link ?hs None] obtain s' r where
    l: "getweb_loop lib net link ?hs [0 .. max_retries s - 1] None s =
          (Inr (text_of r), s', events_upto lib net s link ?hs 0 k)" and r: "net k = Inr r" by blast
  have g: "getweb lib net s link headers rd =
      (Inr (text_of r), s', ?pre @ events_upto lib net s link ?hs 0 k)"
    using l by (simp add: getweb_def Let_def)
  have ne: "events_upto lib net s link ?hs 0 k \<noteq> []"
    by (simp add: events_upto_def)
  have c: "length (filter is_request (events_upto lib net s link ?hs 0 k)) = nat (k + 1)"
    using requests_events_upto [OF assms(1), of lib net s link ?hs] by simp
  have sl: "\<forall>i. 0 \<le> i \<and> i < k \<longrightarrow>
      (\<exists>pre post. ?pre @ events_upto lib net s link ?hs 0 k =
         pre @ [Sleep (2 ^ nat i), Request (i + 1) link ?hs (timeout s)] @ post)"
  proof (intro allI impI)
    fix i assume i: "0 \<le> i \<and> i < k"
    then obtain pre post where
      "events_upto lib net s link ?hs 0 k = pre @ [Sleep (2 ^ nat i), Request (i + 1) link ?hs (timeout s)] @ post"
      using sleep_before_next [of 0 i k lib net s link ?hs] by blast
    then have "?pre @ events_upto lib net s link ?hs 0 k =
        (?pre @ pre) @ [Sleep (2 ^ nat i), Request (i + 1) link ?hs (timeout s)] @ post" by simp
    then show "\<exists>pre post. ?pre @ events_upto lib net s link ?hs 0 k =
         pre @ [Sleep (2 ^ nat i), Request (i + 1) link ?hs (timeout s)] @ post" by blast
  qed
  have p1: "\<exists>r. net k = Inr r \<and> fst (getweb lib net s link headers rd) = Inr (text_of r)"
    using g r by simp
  have p2: "snd (snd (getweb lib net s link headers rd)) = ?pre @ events_upto lib net s link ?hs 0 k"
    using g by simp
  have p4: "length (filter is_request (snd (snd (getweb lib net s link headers rd)))) = nat (k + 1)"
    using p2 c by (simp add: polite_sleep_def)
  have p5: "last (snd (snd (getweb lib net s link headers rd))) = Request k link ?hs (timeout s)"
    using p2 ne by (simp add: last_events_upto)
  show ?thesis
    using p1 p2 sl p4 p5 getweb_requests_le by simp
qed

text \<open>
  An instance with \<open>k = 2\<close>: the network refuses two connections and then serves a
  page. The sleeps are 1 and 2, and three requests are made.
\<close>

theorem getweb_backoff_witness:
  "(0::int) \<le> 2 \<and> 2 < max_retries example_scraper
   \<and> fst (getweb example_bs4 net_recovering example_scraper ''http://example.com'' None False) = Inr ''<p>x</p>''
   \<and> snd (snd (getweb example_bs4 net_recovering example_scraper ''http://example.com'' None False)) =
       [Request 0 ''http://example.com'' [(''User-Agent'', ''inferas-scraper/0.1 (+https://github.com/yourname/inferas)'')] 10,
        Print 1 ''http://example.com'' (RequestException ''connection refused'') 1,
        Sleep 1,
        Request 1 ''http://example.com'' [(''User-Agent'', ''inferas-scraper/0.1 (+https://github.com/yourname/inferas)'')] 10,
        Print 2 ''http://example.com'' (RequestException ''connection refused'') 2,
        Sleep 2,
        Request 2 ''http://example.com'' [(''User-Agent'', ''inferas-scraper/0.1 (+https://github.com/yourname/inferas)'')] 10]"
proof -
  have h1: "(0::int) \<le> 2" by simp
  have h2: "2 < max_retries example_scraper"
    by (simp add: example_scraper_def init_def)
  have h3: "\<forall>i. 0 \<le> i \<and> i < 2 \<longrightarrow> attempt_exn example_bs4 net_recovering i \<noteq> None"
    by (simp add: attempt_exn_def net_recovering_def)
  have h4: "attempt_exn example_bs4 net_recovering 2 = None"
    by (simp add: attempt_exn_def net_recovering_def example_bs4_def example_parser_def)
  show ?thesis
    using h2 getweb_backoff [OF h1 h2 h3 h4, of "''http://example.com''" None False]
    by (simp add: events_upto_def attempt_exn_def net_recovering_def example_scraper_def init_def
        request_headers_def upto.simps)
qed

text \<open>
  Claim C10, as stated, fails. On a new instance with a network whose answer passes the
  status check and is then rejected by the parser, the call raises (the exception of the
  parser is caught by the \<^verbatim>\<open>except\<close> of the loop and re-raised on the last attempt), and
  yet \<^verbatim>\<open>last_html\<close> and \<^verbatim>\<open>last_url\<close> have been assigned: both assignments precede the call
  of the parser inside the \<^verbatim>\<open>try\<close> block.
\<close>

theorem getweb_failure_changes_strings:
  "fst (getweb example_bs4 net_rejected example_scraper ''http://example.com'' None False)
     = Inl (ParserRejectedMarkup ''unknown status keyword'')
   \<and> last_html example_scraper = None
   \<and> last_html (fst (snd (getweb example_bs4 net_rejected example_scraper ''http://example.com'' None False)))
       = Some ''<![x[y]]>''
   \<and> last_url example_scraper = None
   \<and> last_url (fst (snd (getweb example_bs4 net_rejected example_scraper ''http://example.com'' None False)))
       = Some ''http://example.com''"
  by (simp add: getweb_def request_headers_def try_body_def net_rejected_def example_scraper_def
      init_def example_bs4_def example_parser_def upto.simps Let_def)

text \<open>
  Claim C10, amended. A call of \<^verbatim>\<open>getweb\<close> that raises leaves \<^verbatim>\<open>_soup\<close> unchanged; it leaves
  \<^verbatim>\<open>last_html\<close> and \<^verbatim>\<open>last_url\<close> unchanged too when no attempt of the call got past
  \<^verbatim>\<open>raise_for_status\<close>, that is when every attempt failed in the request or in the status
  check.
\<close>

theorem getweb_failure_keeps_soup:
  assumes "getweb lib net s link headers rd = (Inl e, s', evs)"
  shows "priv_soup s' = priv_soup s
       \<and> ((\<forall>i. 0 \<le> i \<and> i < max_retries s \<longrightarrow> \<not> passes_status net i)
            \<longrightarrow> last_html s' = last_html s \<and> last_url s' = last_url s)"
proof -
  obtain res s1 ev1 where
    l: "getweb_loop lib net link (request_headers s headers) [0 .. max_retries s - 1] None s = (res, s1, ev1)"
    by (cases "getweb_loop lib net link (request_headers s headers) [0 .. max_retries s - 1] None s")
  with assms have eq: "res = Inl e" "s1 = s'"
    by (simp_all add: getweb_def Let_def)
  have soup: "priv_soup s' = priv_soup s"
    using loop_soup l eq by blast
  have strs: "last_html s' = last_html s \<and> last_url s' = last_url s"
    if "\<forall>i. 0 \<le> i \<and> i < max_retries s \<longrightarrow> \<not> passes_status net i"
  proof -
    from that have "\<forall>a \<in> set [0 .. max_retries s - 1]. \<not> passes_status net a" by simp
    from loop_strings [OF this l] eq show ?thesis by simp
  qed
  show ?thesis using soup strs by blast
qed

text \<open>
  An instance: on the network that answers every attempt with an error status, the call
  raises and the three fields are those of the instance before the call.
\<close>

theorem getweb_failure_keeps_soup_witness:
  "fst (getweb example_bs4 net_failing example_scraper ''http://example.com'' None True) = Inl (HTTPError 502)
   \<and> (\<forall>i. 0 \<le> i \<and> i < max_retries example_scraper \<longrightarrow> \<not> passes_status net_failing i)
   \<and> priv_soup (fst (snd (getweb example_bs4 net_failing example_scraper ''http://example.com'' None True)))
       = priv_soup example_scraper
   \<and> last_html (fst (snd (getweb example_bs4 net_failing example_scraper ''http://example.com'' None True)))
       = last_html example_scraper
   \<and> last_url (fst (snd (getweb example_bs4 net_failing example_scraper ''http://example.com'' None True)))
       = last_url example_scraper"
proof -
  let ?g = "getweb example_bs4 net_failing example_scraper ''http://example.com'' None True"
  have r: "fst ?g = Inl (HTTPError 502)"
    by (simp add: getweb_def request_headers_def try_body_def net_failing_def example_scraper_def
        init_def polite_sleep_def upto.simps Let_def)
  then have h: "?g = (Inl (HTTPError 502), fst (snd ?g), snd (snd ?g))"
    by (metis prod.collapse)
  have p: "\<forall>i. 0 \<le> i \<and> i < max_retries example_scraper \<longrightarrow> \<not> passes_status net_failing i"
    by (simp add: passes_status_def net_failing_def)
  show ?thesis
    using r p getweb_failure_keeps_soup [OF h] by simp
qed

lemma try_body_unloaded:
  assumes "priv_soup s = None"
    and "last_html s = None \<or> (\<exists>h e. last_html s = Some h \<and> BeautifulSoup lib h = Inl e)"
    and "try_body lib net link a s = (Inl e1, s')"
  shows "priv_soup s' = None
       \<and> (last_html s' = None \<or> (\<exists>h e. last_html s' = Some h \<and> BeautifulSoup lib h = Inl e))"
  using assms by (auto simp add: try_body_def Let_def split: sum.splits option.splits)

lemma loop_unloaded:
  "priv_soup s = None \<Longrightarrow>
   last_html s = None \<or> (\<exists>h e. last_html s = Some h \<and> BeautifulSoup lib h = Inl e) \<Longrightarrow>
   getweb_loop lib net link hs xs last_exc s = (Inl e1, s', evs) \<Longrightarrow>
   priv_soup s' = None
     \<and> (last_html s' = None \<or> (\<exists>h e. last_html s' = Some h \<and> BeautifulSoup lib h = Inl e))"
proof (induction xs arbitrary: last_exc s evs e1)
  case Nil
  then show ?case by (auto split: option.splits)
next
  case (Cons a xs)
  obtain res s1 where t: "try_body lib net link a s = (res, s1)" by (cases "try_body lib net link a s")
  show ?case
  proof (cases res)
    case (Inr html)
    then show ?thesis using Cons.prems t by simp
  next
    case (Inl e2)
    have s1: "priv_soup s1 = None
       \<and> (last_html s1 = None \<or> (\<exists>h e. last_html s1 = Some h \<and> BeautifulSoup lib h = Inl e))"
      using try_body_unloaded [OF Cons.prems(1) Cons.prems(2)] t Inl by blast
    show ?thesis
    proof (cases "a = max_retries s1 - 1")
      case True
      then show ?thesis using Cons.prems(3) t Inl s1 by simp
    next
      case False
      obtain r2 s2 ev2 where l: "getweb_loop lib net link hs xs (Some e2) s1 = (r2, s2, ev2)"
        by (cases "getweb_loop lib net link hs xs (Some e2) s1")
      with Cons.prems(3) t Inl False have "r2 = Inl e1" "s2 = s'" by simp_all
      with l have "getweb_loop lib net link hs xs (Some e2) s1 = (Inl e1, s', ev2)" by simp
      from Cons.IH [OF conjunct1 [OF s1] conjunct2 [OF s1] this] show ?thesis .
    qed
  qed
qed

lemma never_loaded_unloaded:
  "never_loaded lib s \<Longrightarrow>
   priv_soup s = None
     \<and> (last_html s = None \<or> (\<exists>h e. last_html s = Some h \<and> BeautifulSoup lib h = Inl e))"
proof (induction rule: never_loaded.induct)
  case (fresh ua d t m)
  show ?case by (simp add: init_def)
next
  case (failed s net link headers rd e s' evs)
  obtain res s1 ev1 where
    l: "getweb_loop lib net link (request_headers s headers) [0 .. max_retries s - 1] None s = (res, s1, ev1)"
    by (cases "getweb_loop lib net link (request_headers s headers) [0 .. max_retries s - 1] None s")
  with failed.hyps(2) have "res = Inl e" "s1 = s'"
    by (simp_all add: getweb_def Let_def)
  with l have "getweb_loop lib net link (request_headers s headers) [0 .. max_retries s - 1] None s = (Inl e, s', ev1)"
    by simp
  from loop_unloaded [OF conjunct1 [OF failed.IH] conjunct2 [OF failed.IH] this] show ?case .
qed

lemma unloaded_ensure_soup:
  assumes "priv_soup s = None"
    and "last_html s = None \<or> (\<exists>h e. last_html s = Some h \<and> BeautifulSoup lib h = Inl e)"
  shows "\<exists>e. ensure_soup lib s = Inl e"
  using assms by (auto simp add: ensure_soup_def split: option.splits sum.splits)

text \<open>
  Claim C8. On an instance on which no fetch has succeeded (a new instance, or one on
  which every call of \<^verbatim>\<open>getweb\<close> so far has raised), \<^verbatim>\<open>_ensure_soup\<close> raises, and each of
  \<^verbatim>\<open>extractalltext\<close>, \<^verbatim>\<open>extractallinteractions\<close>, \<^verbatim>\<open>get_element\<close>, \<^verbatim>\<open>get_by_class\<close> and
  \<^verbatim>\<open>get_by_id\<close> raises that same exception and leaves the instance as it was: the query is
  made once and nothing is retried.
\<close>

theorem queries_before_load_raise:
  assumes "never_loaded lib s"
  shows "\<exists>e. ensure_soup lib s = Inl e
           \<and> extractalltext lib s collapse_whitespace = (Inl e, s)
           \<and> extractallinteractions lib s = (Inl e, s)
           \<and> get_element lib s el = (Inl e, s)
           \<and> get_by_class lib s cls = (Inl e, s)
           \<and> get_by_id lib s ident = (Inl e, s)"
proof -
  from never_loaded_unloaded [OF assms] unloaded_ensure_soup
  obtain e where e: "ensure_soup lib s = Inl e" by blast
  then have l: "loaded_soup lib s = Inl e" by (simp add: loaded_soup_def)
  have "extractalltext lib s collapse_whitespace = (Inl e, s)"
    using l by (simp add: extractalltext_def)
  moreover have "extractallinteractions lib s = (Inl e, s)"
    using l by (simp add: extractallinteractions_def)
  moreover have "get_element lib s el = (Inl e, s)"
    using l by (simp add: get_element_def)
  moreover have "get_by_class lib s cls = (Inl e, s)"
    using l by (simp add: get_by_class_def)
  moreover have "get_by_id lib s ident = (Inl e, s)"
    using l by (simp add: get_by_id_def)
  ultimately show ?thesis using e by blast
qed

text \<open>
  Two instances: on a new scraper every query raises the RuntimeError of
  \<^verbatim>\<open>_ensure_soup\<close>; after a call of \<^verbatim>\<open>getweb\<close> that failed in the parser, a query raises the
  exception of the parser.
\<close>

theorem queries_before_load_raise_witness:
  "never_loaded example_bs4 example_scraper
   \<and> never_loaded example_bs4
       (fst (snd (getweb example_bs4 net_rejected example_scraper ''http://example.com'' None False)))
   \<and> fst (get_element example_bs4 example_scraper ''h1'')
       = Inl (RuntimeError ''No HTML loaded. call getweb(url) first.'')
   \<and> fst (extractalltext example_bs4 example_scraper True)
       = Inl (RuntimeError ''No HTML loaded. call getweb(url) first.'')
   \<and> fst (extractallinteractions example_bs4 example_scraper)
       = Inl (RuntimeError ''No HTML loaded. call getweb(url) first.'')
   \<and> fst (get_by_class example_bs4 example_scraper ''c'')
       = Inl (RuntimeError ''No HTML loaded. call getweb(url) first.'')
   \<and> fst (get_by_id example_bs4 example_scraper ''i'')
       = Inl (RuntimeError ''No HTML loaded. call getweb(url) first.'')
   \<and> fst (get_element example_bs4
            (fst (snd (getweb example_bs4 net_rejected example_scraper ''http://example.com'' None False))) ''h1'')
       = Inl (ParserRejectedMarkup ''unknown status keyword'')"
proof -
  let ?g = "getweb example_bs4 net_rejected example_scraper ''http://example.com'' None False"
  have n0: "never_loaded example_bs4 example_scraper"
    unfolding example_scraper_def by (rule never_loaded.fresh)
  have r: "fst ?g = Inl (ParserRejectedMarkup ''unknown status keyword'')"
    by (simp add: getweb_def request_headers_def try_body_def net_rejected_def example_scraper_def
        init_def example_bs4_def example_parser_def upto.simps Let_def)
  then have h: "?g = (Inl (ParserRejectedMarkup ''unknown status keyword''), fst (snd ?g), snd (snd ?g))"
    by (metis prod.collapse)
  have n1: "never_loaded example_bs4 (fst (snd ?g))"
    by (rule never_loaded.failed [OF n0 h])
  have e0: "ensure_soup example_bs4 example_scraper = Inl (RuntimeError ''No HTML loaded. call getweb(url) first.'')"
    by (simp add: ensure_soup_def example_scraper_def init_def)
  have s1: "fst (snd ?g) = example_scraper\<lparr>last_html := Some ''<![x[y]]>'', last_url := Some ''http://example.com''\<rparr>"
    by (simp add: getweb_def request_headers_def try_body_def net_rejected_def example_scraper_def
        init_def example_bs4_def example_parser_def upto.simps Let_def)
  have e1: "ensure_soup example_bs4 (fst (snd ?g)) = Inl (ParserRejectedMarkup ''unknown status keyword'')"
    unfolding s1 by (simp add: ensure_soup_def example_scraper_def init_def example_bs4_def example_parser_def)
  show ?thesis
    using n0 n1 e0 e1
      queries_before_load_raise [OF n0, of True "''h1''" "''c''" "''i''"]
      queries_before_load_raise [OF n1, of True "''h1''" "''c''" "''i''"]
    by auto
qed

lemma printable_chr:
  "(CHR '' '' \<le> chr b \<and> chr b \<le> CHR ''~'') = printable_byte b"
proof -
  have u: "unat b < 256" using unsigned_less [of b, where 'a = nat] by simp
  have "of_char (chr b) = unat b"
    using u by (simp add: chr_def)
  then show ?thesis
    by (simp add: less_eq_char_def printable_byte_def word_le_nat_alt)
qed

lemma scan_Cons:
  "scan min_len max_results (b # data) printable results =
     (if printable_byte b then scan min_len max_results data (printable @ [chr b]) results
      else if min_len \<le> int (length printable) then
        (if max_results \<le> int (length results) + 1 then (printable, results @ [printable])
         else scan min_len max_results data [] (results @ [printable]))
      else scan min_len max_results data [] results)"
  by (simp add: Let_def printable_chr)

declare scan.simps(2) [simp del]

lemma runs_printable:
  "\<forall>b \<in> set pre. printable_byte b \<Longrightarrow> runs pre = [pre]"
proof -
  assume a: "\<forall>b \<in> set pre. printable_byte b"
  then have d: "dropWhile printable_byte pre = []" and t: "takeWhile printable_byte pre = pre"
    by simp_all
  show ?thesis unfolding runs.simps [of pre] d t by simp
qed

lemma runs_cut:
  "\<forall>b \<in> set pre. printable_byte b \<Longrightarrow> \<not> printable_byte b \<Longrightarrow>
   runs (pre @ b # data) = pre # runs data"
proof -
  assume a: "\<forall>b \<in> set pre. printable_byte b" and b: "\<not> printable_byte b"
  have d: "dropWhile printable_byte (pre @ b # data) = b # data"
    using a b by simp
  have t: "takeWhile printable_byte (pre @ b # data) = pre"
    using a b by simp
  show ?thesis unfolding runs.simps [of "pre @ b # data"] d t by simp
qed

lemma qualifying_runs_printable:
  "\<forall>b \<in> set pre. printable_byte b \<Longrightarrow>
   qualifying_runs min_len pre = (if min_len \<le> int (length pre) then [map chr pre] else [])"
  by (simp add: qualifying_runs_def runs_printable)

lemma qualifying_runs_cut:
  "\<forall>b \<in> set pre. printable_byte b \<Longrightarrow> \<not> printable_byte b \<Longrightarrow>
   qualifying_runs min_len (pre @ b # data) =
     (if min_len \<le> int (length pre) then [map chr pre] else []) @ qualifying_runs min_len data"
  by (simp add: qualifying_runs_def runs_cut)

lemma scan_reference:
  "\<forall>b \<in> set pre. printable_byte b \<Longrightarrow> int (length results) < max_results \<Longrightarrow>
   (case scan min_len max_results data (map chr pre) results of
      (printable, results') \<Rightarrow>
        (if int (length results') < max_results \<and> min_len \<le> int (length printable)
         then results' @ [printable] else results'))
   = take (nat max_results) (results @ qualifying_runs min_len (pre @ data))"
proof (induction data arbitrary: pre results)
  case Nil
  then show ?case by (simp add: qualifying_runs_printable)
next
  case (Cons b data)
  show ?case
  proof (cases "printable_byte b")
    case True
    have p: "\<forall>x \<in> set (pre @ [b]). printable_byte x" using Cons.prems(1) True by simp
    have "scan min_len max_results (b # data) (map chr pre) results
            = scan min_len max_results data (map chr (pre @ [b])) results"
      using True by (simp add: scan_Cons)
    then show ?thesis using Cons.IH [OF p Cons.prems(2)] by simp
  next
    case False
    note q = qualifying_runs_cut [OF Cons.prems(1) False, of min_len data]
    show ?thesis
    proof (cases "min_len \<le> int (length pre)")
      case short: False
      have "scan min_len max_results (b # data) (map chr pre) results
              = scan min_len max_results data (map chr []) results"
        using False short by (simp add: scan_Cons)
      then show ?thesis using Cons.IH [of "[]" results] Cons.prems(2) q short by simp
    next
      case long: True
      show ?thesis
      proof (cases "max_results \<le> int (length results) + 1")
        case True
        have "scan min_len max_results (b # data) (map chr pre) results
                = (map chr pre, results @ [map chr pre])"
          using False long True by (simp add: scan_Cons)
        moreover have "nat max_results = length results + 1"
          using True Cons.prems(2) by simp
        ultimately show ?thesis using q long True by simp
      next
        case far: False
        have "scan min_len max_results (b # data) (map chr pre) results
                = scan min_len max_results data (map chr []) (results @ [map chr pre])"
          using False long far by (simp add: scan_Cons)
        moreover have "int (length (results @ [map chr pre])) < max_results"
          using far by simp
        ultimately show ?thesis
          using Cons.IH [of "[]" "results @ [map chr pre]"] q long by simp
      qed
    qed
  qed
qed

lemma extract_strings_reference:
  "open_rb fs p = Inr data \<Longrightarrow> 1 \<le> max_results \<Longrightarrow>
   extract_strings fs p min_len max_results = reference_scan data min_len max_results"
  using scan_reference [of "[]" "[]" max_results min_len data]
  by (simp add: extract_strings_def reference_scan_def)

lemma scan_break:
  "int (length results) < max_results \<Longrightarrow>
   max_results \<le> int (length (snd (scan min_len max_results data printable results))) \<Longrightarrow>
   scan min_len max_results (data @ extra) printable results
     = scan min_len max_results data printable results"
proof (induction data arbitrary: printable results)
  case Nil
  then show ?case by simp
next
  case (Cons b data)
  show ?case
  proof (cases "printable_byte b")
    case True
    then show ?thesis using Cons.IH [of results "printable @ [chr b]"] Cons.prems
      by (simp add: scan_Cons)
  next
    case False
    show ?thesis
    proof (cases "min_len \<le> int (length printable)")
      case short: False
      then show ?thesis using False Cons.IH [of results "[]"] Cons.prems
        by (simp add: scan_Cons)
    next
      case long: True
      show ?thesis
      proof (cases "max_results \<le> int (length results) + 1")
        case True
        then show ?thesis using False long by (simp add: scan_Cons)
      next
        case far: False
        then have "int (length (results @ [printable])) < max_results" by simp
        from Cons.IH [OF this, of "[]"] Cons.prems(2) False long far
        show ?thesis by (simp add: scan_Cons)
      qed
    qed
  qed
qed

lemma scan_short:
  "int (length printable) + int (length data) < min_len \<Longrightarrow>
   \<exists>printable'. scan min_len max_results data printable results = (printable', results)
      \<and> int (length printable') < min_len"
proof (induction data arbitrary: printable)
  case Nil
  then show ?case by simp
next
  case (Cons b data)
  show ?case
  proof (cases "printable_byte b")
    case True
    have "int (length (printable @ [chr b])) + int (length data) < min_len"
      using Cons.prems by simp
    from Cons.IH [OF this] True show ?thesis by (simp add: scan_Cons)
  next
    case False
    have "int (length ([] :: string)) + int (length data) < min_len"
      using Cons.prems by simp
    from Cons.IH [OF this] False Cons.prems show ?thesis by (simp add: scan_Cons)
  qed
qed

lemma extract_strings_short:
  "open_rb fs p = Inr data \<Longrightarrow> int (length data) < min_len \<Longrightarrow>
   extract_strings fs p min_len max_results = []"
proof -
  assume o: "open_rb fs p = Inr data" and l: "int (length data) < min_len"
  then have "int (length ([] :: string)) + int (length data) < min_len" by simp
  from scan_short [OF this, of max_results "[]"] obtain printable' where
    "scan min_len max_results data [] [] = (printable', [])" "int (length printable') < min_len"
    by blast
  then show ?thesis using o by (simp add: extract_strings_def)
qed

text \<open>
  Claim C3. For a readable file, \<open>min_len\<close> at least 1 and \<open>max_results\<close> at least 1,
  \<^verbatim>\<open>_extract_strings\<close> returns what the reference scan returns: the maximal printable
  runs of the buffer that have length at least \<open>min_len\<close>, in buffer order, the run at the
  end of the buffer included, cut at \<open>max_results\<close>. When more than \<open>max_results\<close> runs
  qualify, exactly \<open>max_results\<close> results are returned, the first ones; when at most
  \<open>max_results\<close> qualify, all of them are returned. Once the loop has collected
  \<open>max_results\<close> results it has left the buffer: whatever bytes follow are not
  examined.
\<close>

theorem extract_strings_refines_reference:
  assumes "open_rb fs p = Inr data" and "1 \<le> min_len" and "1 \<le> max_results"
  shows "extract_strings fs p min_len max_results = reference_scan data min_len max_results
       \<and> (max_results < int (length (qualifying_runs min_len data)) \<longrightarrow>
            length (extract_strings fs p min_len max_results) = nat max_results
            \<and> extract_strings fs p min_len max_results
                = take (nat max_results) (qualifying_runs min_len data))
       \<and> (int (length (qualifying_runs min_len data)) \<le> max_results \<longrightarrow>
            extract_strings fs p min_len max_results = qualifying_runs min_len data)
       \<and> (\<forall>extra. max_results \<le> int (length (snd (scan min_len max_results data [] []))) \<longrightarrow>
            scan min_len max_results (data @ extra) [] [] = scan min_len max_results data [] [])"
proof -
  have r: "extract_strings fs p min_len max_results = reference_scan data min_len max_results"
    using extract_strings_reference [OF assms(1) assms(3)] .
  have b: "\<forall>extra. max_results \<le> int (length (snd (scan min_len max_results data [] []))) \<longrightarrow>
      scan min_len max_results (data @ extra) [] [] = scan min_len max_results data [] []"
    using scan_break [of "[]" max_results min_len data "[]"] assms(3) by simp
  show ?thesis
    using r b assms(3) by (simp add: reference_scan_def)
qed

text \<open>
  An instance: on the bytes \<^verbatim>\<open>b"AB\x00CDEF\x01"\<close> two runs qualify for \<open>min_len = 2\<close>;
  with \<open>max_results = 1\<close> only the first is returned.
\<close>

theorem extract_strings_refines_reference_witness:
  "open_rb example_fs ''/tmp/sample.bin'' = Inr [0x41, 0x42, 0x00, 0x43, 0x44, 0x45, 0x46, 0x01]
   \<and> extract_strings example_fs ''/tmp/sample.bin'' 2 1 = [''AB'']
   \<and> reference_scan [0x41, 0x42, 0x00, 0x43, 0x44, 0x45, 0x46, 0x01] 2 1 = [''AB'']
   \<and> qualifying_runs 2 [0x41, 0x42, 0x00, 0x43, 0x44, 0x45, 0x46, 0x01] = [''AB'', ''CDEF'']"
proof -
  have o: "open_rb example_fs ''/tmp/sample.bin'' = Inr [0x41, 0x42, 0x00, 0x43, 0x44, 0x45, 0x46, 0x01]"
    by (simp add: example_fs_def)
  have q: "qualifying_runs 2 [0x41, 0x42, 0x00, 0x43, 0x44, 0x45, 0x46, 0x01 :: byte] = [''AB'', ''CDEF'']"
    by code_simp
  show ?thesis
    using o q extract_strings_refines_reference [OF o, of 2 1]
    by (simp add: reference_scan_def)
qed

lemma sample_runs_2:
  "qualifying_runs 2 [0x41, 0x42, 0x00, 0x43, 0x44, 0x45, 0x46, 0x01 :: byte] = [''AB'', ''CDEF'']"
  by code_simp

lemma sample_runs_5:
  "qualifying_runs 5 [0x41, 0x42, 0x00, 0x43, 0x44, 0x45, 0x46, 0x01 :: byte] = []"
  by code_simp

lemma sample_scan_5:
  "scan 5 max_results [0x41, 0x42, 0x00, 0x43, 0x44, 0x45, 0x46, 0x01 :: byte] [] [] = ([], [])"
proof -
  have p: "printable_byte (0x41 :: byte)" "printable_byte (0x42 :: byte)" "printable_byte (0x43 :: byte)"
    "printable_byte (0x44 :: byte)" "printable_byte (0x45 :: byte)" "printable_byte (0x46 :: byte)"
    "\<not> printable_byte (0x00 :: byte)" "\<not> printable_byte (0x01 :: byte)"
    by (simp_all add: printable_byte_def word_le_nat_alt)
  show ?thesis by (simp add: scan_Cons p)
qed

text \<open>
  Claim C4. On the buffer \<^verbatim>\<open>b"AB\x00CDEF\x01"\<close>, \<^verbatim>\<open>_extract_strings\<close> with
  \<open>min_len = 2\<close> returns \<^verbatim>\<open>["AB", "CDEF"]\<close> (for every cap of at least 2, the default 200
  among them) and with \<open>min_len = 5\<close> returns the empty list; on the empty buffer it
  returns the empty list (for \<open>min_len\<close> at least 1, as the contract requires); and on
  every buffer shorter than \<open>min_len\<close> it returns the empty list.
\<close>

theorem extract_strings_examples:
  assumes "open_rb fs p = Inr data"
  shows "(data = [0x41, 0x42, 0x00, 0x43, 0x44, 0x45, 0x46, 0x01] \<and> 2 \<le> max_results \<longrightarrow>
            extract_strings fs p 2 max_results = [''AB'', ''CDEF''])
       \<and> (data = [0x41, 0x42, 0x00, 0x43, 0x44, 0x45, 0x46, 0x01] \<longrightarrow>
            extract_strings fs p 5 max_results = [])
       \<and> (data = [] \<and> 1 \<le> min_len \<longrightarrow> extract_strings fs p min_len max_results = [])
       \<and> (int (length data) < min_len \<longrightarrow> extract_strings fs p min_len max_results = [])"
proof -
  have a: "extract_strings fs p 2 max_results = [''AB'', ''CDEF'']"
    if "data = [0x41, 0x42, 0x00, 0x43, 0x44, 0x45, 0x46, 0x01]" "2 \<le> max_results"
  proof -
    have "extract_strings fs p 2 max_results = reference_scan data 2 max_results"
      using extract_strings_reference [OF assms, of max_results 2] that(2) by simp
    then show ?thesis using that by (simp add: reference_scan_def sample_runs_2)
  qed
  have b: "extract_strings fs p 5 max_results = []"
    if "data = [0x41, 0x42, 0x00, 0x43, 0x44, 0x45, 0x46, 0x01]"
    using assms that by (simp add: extract_strings_def sample_scan_5)
  have d: "extract_strings fs p min_len max_results = []" if "int (length data) < min_len"
    using extract_strings_short [OF assms that] .
  have c: "extract_strings fs p min_len max_results = []" if "data = []" "1 \<le> min_len"
    using extract_strings_short [OF assms, of min_len max_results] that by simp
  show ?thesis using a b c d by blast
qed

text \<open>
  Instances: the file with the bytes \<^verbatim>\<open>b"AB\x00CDEF\x01"\<close> for \<open>min_len\<close> 2, 5 and 9,
  and the empty file.
\<close>

theorem extract_strings_examples_witness:
  "open_rb example_fs ''/tmp/sample.bin'' = Inr [0x41, 0x42, 0x00, 0x43, 0x44, 0x45, 0x46, 0x01]
   \<and> open_rb example_fs ''/tmp/empty.bin'' = Inr []
   \<and> extract_strings example_fs ''/tmp/sample.bin'' 2 200 = [''AB'', ''CDEF'']
   \<and> extract_strings example_fs ''/tmp/sample.bin'' 5 200 = []
   \<and> extract_strings example_fs ''/tmp/empty.bin'' 4 200 = []
   \<and> extract_strings example_fs ''/tmp/sample.bin'' 9 200 = []"
proof -
  have o1: "open_rb example_fs ''/tmp/sample.bin'' = Inr [0x41, 0x42, 0x00, 0x43, 0x44, 0x45, 0x46, 0x01]"
    by (simp add: example_fs_def)
  have o2: "open_rb example_fs ''/tmp/empty.bin'' = Inr []"
    by (simp add: example_fs_def)
  show ?thesis
    using o1 o2
      extract_strings_examples [OF o1, of 200 4]
      extract_strings_examples [OF o1, of 200 9]
      extract_strings_examples [OF o2, of 200 4]
    by simp
qed

text \<open>
  Claim C6. When the file cannot be opened or read, \<^verbatim>\<open>_extract_strings\<close> returns the
  empty list; every path of the function returns a list, so its result has no error
  branch. \<^verbatim>\<open>_compute_sha256\<close> on the same path raises the exception of \<^verbatim>\<open>open\<close>, and
  \<^verbatim>\<open>_file_metadata\<close> raises the exception of \<^verbatim>\<open>os.stat\<close> when that call fails.
\<close>

theorem extract_strings_swallows_open_failure:
  assumes "open_rb fs p = Inl e"
  shows "extract_strings fs p min_len max_results = []
       \<and> compute_sha256 sha256 fs p chunk_size = Inl e
       \<and> (\<forall>e'. os_stat fs p = Inl e' \<longrightarrow> file_metadata fs p = Inl e')"
  using assms by (simp add: extract_strings_def compute_sha256_def file_metadata_def)

text \<open>
  An instance: a path that does not exist.
\<close>

theorem extract_strings_swallows_open_failure_witness:
  "open_rb example_fs ''/nonexistent'' = Inl (OSError ''No such file or directory'')
   \<and> os_stat example_fs ''/nonexistent'' = Inl (OSError ''No such file or directory'')
   \<and> extract_strings example_fs ''/nonexistent'' 4 200 = []
   \<and> compute_sha256 (\<lambda>msg. 0) example_fs ''/nonexistent'' 8192 = Inl (OSError ''No such file or directory'')
   \<and> file_metadata example_fs ''/nonexistent'' = Inl (OSError ''No such file or directory'')"
proof -
  have o: "open_rb example_fs ''/nonexistent'' = Inl (OSError ''No such file or directory'')"
    by (simp add: example_fs_def)
  have s: "os_stat example_fs ''/nonexistent'' = Inl (OSError ''No such file or directory'')"
    by (simp add: example_fs_def)
  show ?thesis
    using o s extract_strings_swallows_open_failure [OF o, of 4 200 "\<lambda>msg. 0" 8192]
    by simp
qed

lemma read_loop_all:
  "chunk_size \<noteq> 0 \<Longrightarrow> read_loop chunk_size unread h = h @ unread"
proof (induction chunk_size unread h rule: read_loop.induct)
  case (1 chunk_size unread h)
  show ?case
  proof (cases "fh_read chunk_size unread = []")
    case True
    then have u: "unread = []" using 1(2) by (auto simp add: fh_read_def split: if_splits)
    have "read_loop chunk_size unread h = h"
      by (subst read_loop.simps) (simp add: True)
    then show ?thesis using u by simp
  next
    case False
    have "read_loop chunk_size unread h =
            read_loop chunk_size (drop (length (fh_read chunk_size unread)) unread)
              (update h (fh_read chunk_size unread))"
      by (subst read_loop.simps) (simp add: False)
    also have "\<dots> = update h (fh_read chunk_size unread) @ drop (length (fh_read chunk_size unread)) unread"
      using 1(1) [OF False 1(2)] .
    also have "\<dots> = h @ unread"
      by (simp add: update_def fh_read_def min_def)
    finally show ?thesis .
  qed
qed

lemma hex_digit_range: "hex_digit n \<in> set ''0123456789abcdef''"
proof -
  have "n mod 16 < length ''0123456789abcdef''" by simp
  then show ?thesis unfolding hex_digit_def by (rule nth_mem)
qed

lemma hex256_format:
  "length (hex256 d) = 64 \<and> set (hex256 d) \<subseteq> set ''0123456789abcdef''"
  using hex_digit_range by (auto simp add: hex256_def)

text \<open>
  Claim C5. For a readable file and positive chunk sizes \<open>c1\<close> and \<open>c2\<close>,
  \<^verbatim>\<open>_compute_sha256\<close> returns the same string for both: the hexadecimal rendering of the
  SHA-256 digest of the whole content of the file, which has 64 characters, all of them
  among \<^verbatim>\<open>0123456789abcdef\<close>. In particular chunk sizes 1 and 65536 agree.
\<close>

theorem compute_sha256_chunk_independent:
  assumes "open_rb fs p = Inr data" and "0 < c1" and "0 < c2"
  shows "compute_sha256 sha256 fs p c1 = compute_sha256 sha256 fs p c2
       \<and> compute_sha256 sha256 fs p c1 = Inr (hex256 (sha256 data))
       \<and> length (hex256 (sha256 data)) = 64
       \<and> set (hex256 (sha256 data)) \<subseteq> set ''0123456789abcdef''
       \<and> compute_sha256 sha256 fs p 1 = compute_sha256 sha256 fs p 65536"
proof -
  have r: "compute_sha256 sha256 fs p c = Inr (hex256 (sha256 data))" if "c \<noteq> 0" for c
    using assms(1) read_loop_all [OF that, of data sha256_new]
    by (simp add: compute_sha256_def hexdigest_def sha256_new_def)
  have "compute_sha256 sha256 fs p c1 = Inr (hex256 (sha256 data))"
    using r [of c1] assms(2) by simp
  moreover have "compute_sha256 sha256 fs p c2 = Inr (hex256 (sha256 data))"
    using r [of c2] assms(3) by simp
  moreover have "compute_sha256 sha256 fs p 1 = Inr (hex256 (sha256 data))"
    using r [of 1] by simp
  moreover have "compute_sha256 sha256 fs p 65536 = Inr (hex256 (sha256 data))"
    using r [of 65536] by simp
  ultimately show ?thesis using hex256_format [of "sha256 data"] by simp
qed

text \<open>
  An instance: the eight-byte file read in chunks of 3 and of 8192 (and of 1 and of
  65536), with a stand-in for the digest function.
\<close>

theorem compute_sha256_chunk_independent_witness:
  "open_rb example_fs ''/tmp/sample.bin'' = Inr [0x41, 0x42, 0x00, 0x43, 0x44, 0x45, 0x46, 0x01]
   \<and> (0::int) < 3 \<and> (0::int) < 8192
   \<and> compute_sha256 (\<lambda>msg. word_of_nat (length msg)) example_fs ''/tmp/sample.bin'' 3
       = compute_sha256 (\<lambda>msg. word_of_nat (length msg)) example_fs ''/tmp/sample.bin'' 8192
   \<and> compute_sha256 (\<lambda>msg. word_of_nat (length msg)) example_fs ''/tmp/sample.bin'' 1
       = compute_sha256 (\<lambda>msg. word_of_nat (length msg)) example_fs ''/tmp/sample.bin'' 65536"
proof -
  have o: "open_rb example_fs ''/tmp/sample.bin'' = Inr [0x41, 0x42, 0x00, 0x43, 0x44, 0x45, 0x46, 0x01]"
    by (simp add: example_fs_def)
  have h1: "(0::int) < 3" and h2: "(0::int) < 8192" by simp_all
  show ?thesis
    using o compute_sha256_chunk_independent [OF o h1 h2, of "\<lambda>msg. word_of_nat (length msg)"]
    by simp
qed

text \<open>
  Claim C9. When \<^verbatim>\<open>psutil\<close> is available and the process exists, \<^verbatim>\<open>get_pid\<close> returns a
  dictionary with all twelve keys. The value under each key depends on the lookup of
  that field alone: the value the lookup gave, or \<^verbatim>\<open>None\<close> when that lookup raised. No
  lookup failure makes the call raise.
\<close>

theorem get_pid_fields_independent:
  assumes "psutil = Some Process" and "Process pid = Inr proc"
  shows "\<exists>out. get_pid psutil pid = Inr out
       \<and> dom out = {''pid'', ''name'', ''cmdline'', ''exe'', ''cwd'', ''username'', ''created'',
                     ''status'', ''cpu_times'', ''memory_info'', ''open_files'', ''connections_count''}
       \<and> out ''pid'' = Some (PyInt pid)
       \<and> out ''name'' = Some (case name proc of Inl e \<Rightarrow> PyNone | Inr v \<Rightarrow> PyStr v)
       \<and> out ''cmdline'' = Some (case cmdline proc of Inl e \<Rightarrow> PyNone | Inr v \<Rightarrow> PyList (map PyStr v))
       \<and> out ''exe'' = Some (case exe proc of Inl e \<Rightarrow> PyNone | Inr v \<Rightarrow> PyStr v)
       \<and> out ''cwd'' = Some (case cwd proc of Inl e \<Rightarrow> PyNone | Inr v \<Rightarrow> PyStr v)
       \<and> out ''username'' = Some (case username proc of Inl e \<Rightarrow> PyNone | Inr v \<Rightarrow> PyStr v)
       \<and> out ''created'' = Some (case create_time proc of Inl e \<Rightarrow> PyNone | Inr v \<Rightarrow> PyFloat v)
       \<and> out ''status'' = Some (case status proc of Inl e \<Rightarrow> PyNone | Inr v \<Rightarrow> PyStr v)
       \<and> out ''cpu_times'' =
           Some (case cpu_times_asdict proc of
                   Inl e \<Rightarrow> PyNone
                 | Inr d \<Rightarrow> PyDict (map (\<lambda>(k, v). (k, PyFloat v)) d))
       \<and> out ''memory_info'' =
           Some (case memory_info proc of
                   Inl e \<Rightarrow> PyNone
                 | Inr mem \<Rightarrow> PyDict [(''rss'', py_opt_int (rss mem)), (''vms'', py_opt_int (vms mem))])
       \<and> out ''open_files'' =
           Some (case open_files proc of
                   Inl e \<Rightarrow> PyNone
                 | Inr fs \<Rightarrow> PyList (map (\<lambda>f. PyStr (path f)) fs))
       \<and> out ''connections_count'' =
           Some (case connections proc of Inl e \<Rightarrow> PyNone | Inr conns \<Rightarrow> PyInt (int (length conns)))"
proof -
  let ?out = "[''pid'' \<mapsto> PyInt pid,
      ''name'' \<mapsto> attempt_field PyStr (name proc),
      ''cmdline'' \<mapsto> attempt_field (\<lambda>c. PyList (map PyStr c)) (cmdline proc),
      ''exe'' \<mapsto> attempt_field PyStr (exe proc),
      ''cwd'' \<mapsto> attempt_field PyStr (cwd proc),
      ''username'' \<mapsto> attempt_field PyStr (username proc),
      ''created'' \<mapsto> attempt_field PyFloat (create_time proc),
      ''status'' \<mapsto> attempt_field PyStr (status proc),
      ''cpu_times'' \<mapsto> attempt_field (\<lambda>d. PyDict (map (\<lambda>(k, v). (k, PyFloat v)) d)) (cpu_times_asdict proc),
      ''memory_info'' \<mapsto> attempt_field
         (\<lambda>mem. PyDict [(''rss'', py_opt_int (rss mem)), (''vms'', py_opt_int (vms mem))]) (memory_info proc),
      ''open_files'' \<mapsto> attempt_field (\<lambda>fs. PyList (map (\<lambda>f. PyStr (path f)) fs)) (open_files proc),
      ''connections_count'' \<mapsto> attempt_field (\<lambda>conns. PyInt (int (length conns))) (connections proc)]"
  have s: "safe_psutil_proc psutil pid = Inr (Some proc)"
    using assms by (simp add: safe_psutil_proc_def)
  have g: "get_pid psutil pid = Inr ?out"
    by (simp add: get_pid_def s Let_def)
  have d: "dom ?out = {''pid'', ''name'', ''cmdline'', ''exe'', ''cwd'', ''username'', ''created'',
                     ''status'', ''cpu_times'', ''memory_info'', ''open_files'', ''connections_count''}"
    by auto
  have f: "attempt_field conv r = (case r of Inl e \<Rightarrow> PyNone | Inr v \<Rightarrow> conv v)" for conv :: "'a \<Rightarrow> pyval" and r
    by (simp add: attempt_field_def)
  show ?thesis
    apply (rule exI [of _ ?out])
    apply (simp only: g d)
    apply (simp add: f)
    done
qed

text \<open>
  An instance: a process whose open files may not be read. \<^verbatim>\<open>open_files\<close> is \<^verbatim>\<open>None\<close> and
  the other fields hold their values.
\<close>

theorem get_pid_fields_independent_witness:
  "example_psutil = Some (\<lambda>pid. if pid = 42 then Inr example_process else Inl (NoSuchProcess pid))
   \<and> (\<exists>out. get_pid example_psutil 42 = Inr out
         \<and> out ''open_files'' = Some PyNone
         \<and> out ''pid'' = Some (PyInt 42)
         \<and> out ''name'' = Some (PyStr ''python3'')
         \<and> out ''cmdline'' = Some (PyList [PyStr ''python3'', PyStr ''-m'', PyStr ''inferas''])
         \<and> out ''exe'' = Some (PyStr ''/usr/bin/python3'')
         \<and> out ''cwd'' = Some (PyStr ''/home/user'')
         \<and> out ''username'' = Some (PyStr ''user'')
         \<and> out ''created'' = Some (PyFloat 1700000000)
         \<and> out ''status'' = Some (PyStr ''running'')
         \<and> out ''cpu_times'' = Some (PyDict [(''user'', PyFloat 1), (''system'', PyFloat 2)])
         \<and> out ''memory_info'' = Some (PyDict [(''rss'', PyInt 4096), (''vms'', PyInt 8192)])
         \<and> out ''connections_count'' = Some (PyInt 0))"
proof -
  have h1: "example_psutil = Some (\<lambda>pid. if pid = 42 then Inr example_process else Inl (NoSuchProcess pid))"
    by (simp add: example_psutil_def)
  have h2: "(\<lambda>pid. if pid = 42 then Inr example_process else Inl (NoSuchProcess pid)) 42 = Inr example_process"
    by simp
  from get_pid_fields_independent [OF h1 h2] obtain out where
    o: "get_pid example_psutil 42 = Inr out"
       "out ''pid'' = Some (PyInt 42)"
       "out ''name'' = Some (case name example_process of Inl e \<Rightarrow> PyNone | Inr v \<Rightarrow> PyStr v)"
       "out ''cmdline'' = Some (case cmdline example_process of Inl e \<Rightarrow> PyNone | Inr v \<Rightarrow> PyList (map PyStr v))"
       "out ''exe'' = Some (case exe example_process of Inl e \<Rightarrow> PyNone | Inr v \<Rightarrow> PyStr v)"
       "out ''cwd'' = Some (case cwd example_process of Inl e \<Rightarrow> PyNone | Inr v \<Rightarrow> PyStr v)"
       "out ''username'' = Some (case username example_process of Inl e \<Rightarrow> PyNone | Inr v \<Rightarrow> PyStr v)"
       "out ''created'' = Some (case create_time example_process of Inl e \<Rightarrow> PyNone | Inr v \<Rightarrow> PyFloat v)"
       "out ''status'' = Some (case status example_process of Inl e \<Rightarrow> PyNone | Inr v \<Rightarrow> PyStr v)"
       "out ''cpu_times'' =
           Some (case cpu_times_asdict example_process of
                   Inl e \<Rightarrow> PyNone
                 | Inr d \<Rightarrow> PyDict (map (\<lambda>(k, v). (k, PyFloat v)) d))"
       "out ''memory_info'' =
           Some (case memory_info example_process of
                   Inl e \<Rightarrow> PyNone
                 | Inr mem \<Rightarrow> PyDict [(''rss'', py_opt_int (rss mem)), (''vms'', py_opt_int (vms mem))])"
       "out ''open_files'' =
           Some (case open_files example_process of
                   Inl e \<Rightarrow> PyNone
                 | Inr fs \<Rightarrow> PyList (map (\<lambda>f. PyStr (path f)) fs))"
       "out ''connections_count'' =
           Some (case connections example_process of Inl e \<Rightarrow> PyNone | Inr conns \<Rightarrow> PyInt (int (length conns)))"
    by blast
  have "get_pid example_psutil 42 = Inr out
         \<and> out ''open_files'' = Some PyNone
         \<and> out ''pid'' = Some (PyInt 42)
         \<and> out ''name'' = Some (PyStr ''python3'')
         \<and> out ''cmdline'' = Some (PyList [PyStr ''python3'', PyStr ''-m'', PyStr ''inferas''])
         \<and> out ''exe'' = Some (PyStr ''/usr/bin/python3'')
         \<and> out ''cwd'' = Some (PyStr ''/home/user'')
         \<and> out ''username'' = Some (PyStr ''user'')
         \<and> out ''created'' = Some (PyFloat 1700000000)
         \<and> out ''status'' = Some (PyStr ''running'')
         \<and> out ''cpu_times'' = Some (PyDict [(''user'', PyFloat 1), (''system'', PyFloat 2)])
         \<and> out ''memory_info'' = Some (PyDict [(''rss'', PyInt 4096), (''vms'', PyInt 8192)])
         \<and> out ''connections_count'' = Some (PyInt 0)"
    using o by (simp add: example_process_def py_opt_int_def)
  then show ?thesis using h1 by blast
qed

lemma example_body_end:
  "place_snippet (ensure_body [Tag ''html'' [] [Tag ''body'' [] [Tag ''p'' [] [NavigableString ''x'']]]])
     [Tag ''b'' [] [NavigableString ''s'']] ''body-end''
   = Inr [Tag ''html'' [] [Tag ''body'' []
            [Tag ''p'' [] [NavigableString ''x''], Tag ''b'' [] [NavigableString ''s'']]]]"
  by (simp add: place_snippet_def ensure_body_def on_tag_def)

lemma example_body_synthesised:
  "place_snippet (ensure_body [Tag ''p'' [] [NavigableString ''x'']])
     [Tag ''b'' [] [NavigableString ''s'']] ''end''
   = Inr [Tag ''body'' [] [Tag ''p'' [] [NavigableString ''x''], Tag ''b'' [] [NavigableString ''s'']]]"
  by (simp add: place_snippet_def ensure_body_def on_tag_def)

lemma example_css_synthesises_html:
  "ensure_head [Tag ''p'' [] [NavigableString ''x'']]
   = Inr [Tag ''html'' [] [Tag ''head'' [] [], Tag ''p'' [] [NavigableString ''x'']]]"
  by (simp add: ensure_head_def on_tag_def)

text \<open>
  Claim C7 fails on the code. Injecting at the head of a document that has neither an
  html nor a head element, here \<^verbatim>\<open><p>x</p>\<close> with the snippet \<^verbatim>\<open><b>s</b>\<close>: the body is
  synthesised, then \<^verbatim>\<open>soup.html\<close> is \<^verbatim>\<open>None\<close> and \<^verbatim>\<open>soup.html.insert\<close> raises AttributeError.
  \<^verbatim>\<open>element\<close> does not synthesise the html wrapper; \<^verbatim>\<open>css\<close> does.
\<close>

theorem element_head_without_html_raises:
  "element example_bs4 ''<p>x</p>'' ''<b>s</b>'' ''head''
     = Inl (AttributeError ''NoneType object has no such attribute'')
   \<and> BeautifulSoup example_bs4 ''<p>x</p>'' = Inr [Tag ''p'' [] [NavigableString ''x'']]
   \<and> BeautifulSoup example_bs4 ''<b>s</b>'' = Inr [Tag ''b'' [] [NavigableString ''s'']]
   \<and> place_snippet (ensure_body [Tag ''p'' [] [NavigableString ''x'']])
        [Tag ''b'' [] [NavigableString ''s'']] ''head''
       = Inl (AttributeError ''NoneType object has no such attribute'')"
  by (simp add: element_def example_bs4_def example_parser_def place_snippet_def ensure_body_def
      on_tag_def)

end
